theory Spec2Isabelle
  imports Main "HOL-Library.Multiset"
begin

section \<open>JavaScript values used by the ledger\<close>

text \<open>
  The household ledger is a single React component file, \<^verbatim>\<open>src/App.js\<close>; an earlier
  revision of the same file is kept in the repository as well. The analytics live in four
  places: the \<^verbatim>\<open>useMemo\<close> blocks \<^verbatim>\<open>filteredEntries\<close>, the summary block and
  \<^verbatim>\<open>trendData\<close> of \<^verbatim>\<open>DashboardTab\<close>, and \<^verbatim>\<open>filteredAndSortedEntries\<close> and
  \<^verbatim>\<open>handleDownloadCsv\<close> of \<^verbatim>\<open>HistoryTab\<close>. Each is embedded below as a function of
  the values it closes over.

  A JavaScript string is a sequence of UTF-16 code units. Code units are natural numbers
  here, so that the Hangul literals of the source keep their length; ASCII literals are
  written through \<open>js\<close>.
\<close>

type_synonym jsstring = "nat list"

definition js :: "string \<Rightarrow> jsstring" where
  "js s = map of_char s"

text \<open>
  Amounts are whole currency units (won), and a number of the language is a double. A whole
  number is held exactly up to magnitude \<open>2\<^sup>5\<^sup>3\<close>; a sum or a difference of whole numbers
  is rounded to 53 significant bits, a tie going to the neighbour whose last bit is even.
  \<open>expOf n\<close> is the number of low bits that a magnitude \<open>n\<close> loses. Magnitudes stay
  below \<open>2\<^sup>1\<^sup>0\<^sup>2\<^sup>4\<close>, where the language would give \<^verbatim>\<open>Infinity\<close>. \<open>numAdd\<close> and
  \<open>numSub\<close> are \<^verbatim>\<open>+\<close> and \<^verbatim>\<open>-\<close> on two such numbers.
\<close>

fun expOf :: "nat \<Rightarrow> nat" where
  "expOf n = (if n < 2 ^ 53 then 0 else Suc (expOf (n div 2)))"

declare expOf.simps [simp del]

definition roundDouble :: "int \<Rightarrow> int" where
  "roundDouble x =
     (let n = nat \<bar>x\<bar>; e = expOf n; q = n div 2 ^ e; r = n mod 2 ^ e;
          m = (if 2 ^ e < 2 * r \<or> (2 * r = 2 ^ e \<and> odd q) then q + 1 else q)
      in sgn x * int (m * 2 ^ e))"

definition numAdd :: "int \<Rightarrow> int \<Rightarrow> int" where
  "numAdd a b = roundDouble (a + b)"

definition numSub :: "int \<Rightarrow> int \<Rightarrow> int" where
  "numSub a b = roundDouble (a - b)"

text \<open>
  The only other number that arises is \<open>NaN\<close>, from arithmetic on \<^verbatim>\<open>undefined\<close> or on
  a string. A possibly \<^verbatim>\<open>undefined\<close> value is an \<open>option\<close>.
\<close>

datatype jsnum = Num int | NaN

fun jsMinus :: "jsnum option \<Rightarrow> jsnum option \<Rightarrow> jsnum" where
  "jsMinus (Some (Num a)) (Some (Num b)) = Num (a - b)"
| "jsMinus _ _ = NaN"

text \<open>\<^verbatim>\<open>a !== b\<close> on numbers and \<^verbatim>\<open>undefined\<close>: \<open>NaN\<close> differs from everything, itself included.\<close>

fun strictNotEqual :: "jsnum option \<Rightarrow> jsnum option \<Rightarrow> bool" where
  "strictNotEqual None None = False"
| "strictNotEqual (Some (Num a)) (Some (Num b)) = (a \<noteq> b)"
| "strictNotEqual _ _ = True"

text \<open>\<^verbatim>\<open>x || ''\<close> on a string or \<^verbatim>\<open>undefined\<close>.\<close>

definition orEmpty :: "jsstring option \<Rightarrow> jsstring" where
  "orEmpty x = (case x of None \<Rightarrow> [] | Some s \<Rightarrow> if s = [] then [] else s)"

subsection \<open>Number to string and back\<close>

text \<open>
  The decimal digits of a whole number, which is how the language writes one of magnitude
  below \<open>10\<^sup>2\<^sup>1\<close>; the years, months and amounts of the ledger are of that kind.
\<close>

fun showNat :: "nat \<Rightarrow> jsstring" where
  "showNat n = (if n < 10 then [48 + n] else showNat (n div 10) @ [48 + n mod 10])"

declare showNat.simps [simp del]

definition showInt :: "int \<Rightarrow> jsstring" where
  "showInt i = (if i < 0 then 45 # showNat (nat (- i)) else showNat (nat i))"

definition isDigit :: "nat \<Rightarrow> bool" where
  "isDigit c = (48 \<le> c \<and> c \<le> 57)"

definition digitsValue :: "jsstring \<Rightarrow> nat" where
  "digitsValue s = fold (\<lambda>c n. 10 * n + (c - 48)) s 0"

text \<open>
  \<^verbatim>\<open>Number(s)\<close> on the strings that reach it here: the empty string is \<open>0\<close>, a string of
  decimal digits is its value, and a string with any other code unit in it (a letter,
  a Hangul syllable) is \<open>NaN\<close>. Signs, fractions, exponents, radix prefixes and white
  space do not occur in the labels that are parsed and are not modelled.
\<close>

definition toNumber :: "jsstring \<Rightarrow> jsnum" where
  "toNumber s = (if list_all isDigit s then Num (int (digitsValue s)) else NaN)"

text \<open>\<^verbatim>\<open>s.padStart(2, '0')\<close>\<close>

definition padStart2 :: "jsstring \<Rightarrow> jsstring" where
  "padStart2 s = replicate (2 - length s) 48 @ s"

text \<open>\<^verbatim>\<open>s.split(c)\<close> for a separator of one code unit: never empty, \<^verbatim>\<open>''.split('-')\<close> is \<^verbatim>\<open>['']\<close>.\<close>

fun split :: "nat \<Rightarrow> jsstring \<Rightarrow> jsstring list" where
  "split sep [] = [[]]"
| "split sep (c # cs) =
     (if c = sep then [] # split sep cs
      else (case split sep cs of [] \<Rightarrow> [[c]] | w # ws \<Rightarrow> (c # w) # ws))"

text \<open>\<^verbatim>\<open>xs[i]\<close>, which is \<^verbatim>\<open>undefined\<close> past the end, as array destructuring reads it.\<close>

definition elementAt :: "'a list \<Rightarrow> nat \<Rightarrow> 'a option" where
  "elementAt xs i = (if i < length xs then Some (xs ! i) else None)"

text \<open>\<^verbatim>\<open>xs.join(sep)\<close>\<close>

fun join :: "jsstring \<Rightarrow> jsstring list \<Rightarrow> jsstring" where
  "join sep [] = []"
| "join sep [x] = x"
| "join sep (x # y # ys) = x @ sep @ join sep (y # ys)"

subsection \<open>Array.prototype.sort\<close>

text \<open>
  \<^verbatim>\<open>xs.sort(comparefn)\<close>. The language reads the comparator's result as a number and
  takes \<open>NaN\<close> for \<open>+0\<close>; the sort is stable, so for a comparator that is a consistent
  ordering the result is the one a stable insertion sort gives: an element goes in front
  of the first later element it is not greater than.
\<close>

definition sortCompare :: "('a \<Rightarrow> 'a \<Rightarrow> jsnum) \<Rightarrow> 'a \<Rightarrow> 'a \<Rightarrow> int" where
  "sortCompare comparefn x y = (case comparefn x y of NaN \<Rightarrow> 0 | Num v \<Rightarrow> v)"

fun insertSorted :: "('a \<Rightarrow> 'a \<Rightarrow> jsnum) \<Rightarrow> 'a \<Rightarrow> 'a list \<Rightarrow> 'a list" where
  "insertSorted comparefn x [] = [x]"
| "insertSorted comparefn x (y # ys) =
     (if sortCompare comparefn x y \<le> 0 then x # y # ys
      else y # insertSorted comparefn x ys)"

definition arraySort :: "('a \<Rightarrow> 'a \<Rightarrow> jsnum) \<Rightarrow> 'a list \<Rightarrow> 'a list" where
  "arraySort comparefn xs = foldr (insertSorted comparefn) xs []"

subsection \<open>Plain objects used as dictionaries\<close>

text \<open>
  \<^verbatim>\<open>categories\<close> and \<^verbatim>\<open>monthlyData\<close> start as \<^verbatim>\<open>{}\<close> and are filled by assignment.
  An object is the list of its own properties in creation order. \<open>getProp\<close> looks a key
  up among them. \<open>setProp\<close> creates or overwrites an own property: an existing property
  gets the value where it stands, a new one is appended.
\<close>

type_synonym 'v jsobject = "(jsstring \<times> 'v) list"

definition getProp :: "'v jsobject \<Rightarrow> jsstring \<Rightarrow> 'v option" where
  "getProp obj k = map_of obj k"

fun setProp :: "jsstring \<Rightarrow> 'v \<Rightarrow> 'v jsobject \<Rightarrow> 'v jsobject" where
  "setProp k v [] = [(k, v)]"
| "setProp k v ((k', v') # kvs) =
     (if k' = k then (k', v) # kvs else (k', v') # setProp k v kvs)"

text \<open>
  An object made by \<^verbatim>\<open>{}\<close> inherits the members of \<^verbatim>\<open>Object.prototype\<close>. \<^verbatim>\<open>obj[k]\<close>
  reads the own property \<open>k\<close> if there is one, else the inherited member of that name if
  there is one (a function, or for \<^verbatim>\<open>__proto__\<close> the prototype object), else
  \<^verbatim>\<open>undefined\<close>.
\<close>

definition inheritedNames :: "jsstring list" where
  "inheritedNames =
     [js ''constructor'', js ''hasOwnProperty'', js ''isPrototypeOf'',
      js ''propertyIsEnumerable'', js ''toLocaleString'', js ''toString'', js ''valueOf'',
      js ''__defineGetter__'', js ''__defineSetter__'', js ''__lookupGetter__'',
      js ''__lookupSetter__'', js ''__proto__'']"

datatype 'v member = Own 'v | Inherited | Undefined

definition readProp :: "'v jsobject \<Rightarrow> jsstring \<Rightarrow> 'v member" where
  "readProp obj k =
     (case map_of obj k of
        Some v \<Rightarrow> Own v
      | None \<Rightarrow> if k \<in> set inheritedNames then Inherited else Undefined)"

text \<open>
  \<^verbatim>\<open>obj[k] = v\<close> for a value \<open>v\<close> that is a number or a string. Under the name
  \<^verbatim>\<open>__proto__\<close> the assignment reaches the inherited setter, which ignores a value that is
  not an object: no own property is made. Under every other name (inherited ones
  included) an own property is created or overwritten.
\<close>

definition writeProp :: "jsstring \<Rightarrow> 'v \<Rightarrow> 'v jsobject \<Rightarrow> 'v jsobject" where
  "writeProp k v obj = (if k = js ''__proto__'' then obj else setProp k v obj)"

text \<open>
  \<^verbatim>\<open>Object.entries\<close> and \<^verbatim>\<open>Object.values\<close> list the own properties: first the keys
  that are array indices (the canonical decimal form of an integer below \<open>2\<^sup>3\<^sup>2 - 1\<close>) in
  ascending numeric order, then every other key in creation order.
\<close>

definition arrayIndex :: "jsstring \<Rightarrow> nat option" where
  "arrayIndex k =
     (if k \<noteq> [] \<and> list_all isDigit k \<and> (k = [48] \<or> hd k \<noteq> 48) \<and> digitsValue k < 4294967295
      then Some (digitsValue k) else None)"

definition indexOrder :: "jsstring \<times> 'v \<Rightarrow> nat" where
  "indexOrder kv = (case arrayIndex (fst kv) of None \<Rightarrow> 0 | Some i \<Rightarrow> i)"

definition objectEntries :: "'v jsobject \<Rightarrow> (jsstring \<times> 'v) list" where
  "objectEntries obj =
     sort_key indexOrder (filter (\<lambda>kv. arrayIndex (fst kv) \<noteq> None) obj)
     @ filter (\<lambda>kv. arrayIndex (fst kv) = None) obj"

definition objectValues :: "'v jsobject \<Rightarrow> 'v list" where
  "objectValues obj = map snd (objectEntries obj)"

subsection \<open>Dates\<close>

text \<open>
  A \<^verbatim>\<open>Date\<close> is known to the ledger through five observations: its time value in
  milliseconds (what \<^verbatim>\<open>>=\<close>, \<^verbatim>\<open><=\<close> and \<^verbatim>\<open>-\<close> read), the year and the zero-based month
  in the host's time zone, the first seven code units of \<^verbatim>\<open>toISOString()\<close> and
  \<^verbatim>\<open>toLocaleDateString('ko-KR')\<close>. The record holds these; all dates are valid dates.
\<close>

record jsdate =
  getTime :: int
  getFullYear :: int
  getMonth :: int
  isoMonth :: jsstring
  toLocaleDateString :: jsstring

text \<open>
  \<^verbatim>\<open>new Date(y, m, 1)\<close> read back through \<^verbatim>\<open>getFullYear()\<close> and \<^verbatim>\<open>getMonth()\<close>: the
  constructor takes a year from 0 to 99 as 1900 plus that year and carries a month outside
  0..11 into the year.
\<close>

definition firstOfMonth :: "int \<Rightarrow> int \<Rightarrow> int \<times> int" where
  "firstOfMonth y m =
     (let yr = (if 0 \<le> y \<and> y \<le> 99 then 1900 + y else y) in (yr + m div 12, m mod 12))"

text \<open>
  The time value of \<^verbatim>\<open>new Date(y, m, d, h, min, s)\<close> depends on the host's time zone.
  The functions that build such dates take the constructor as the parameter
  \<open>newDate\<close>. \<open>utcDate\<close> is the constructor of a host whose zone is UTC, by the
  language's day-from-year-and-month arithmetic; it serves the worked examples.
\<close>

type_synonym dateConstructor = "int \<Rightarrow> int \<Rightarrow> int \<Rightarrow> int \<Rightarrow> int \<Rightarrow> int \<Rightarrow> int"

definition daysFromCivil :: "int \<Rightarrow> int \<Rightarrow> int" where
  "daysFromCivil ym mn =
     (let y = (if mn < 2 then ym - 1 else ym);
          era = y div 400;
          yoe = y - era * 400;
          mp = (mn + 10) mod 12;
          doy = (153 * mp + 2) div 5;
          doe = yoe * 365 + yoe div 4 - yoe div 100 + doy
      in era * 146097 + doe - 719468)"

definition utcDate :: dateConstructor where
  "utcDate y m d h mi s =
     (case firstOfMonth y m of (ym, mn) \<Rightarrow>
        (daysFromCivil ym mn + (d - 1)) * 86400000 + h * 3600000 + mi * 60000 + s * 1000)"

section \<open>Entries\<close>

text \<open>
  An entry is a document of the \<^verbatim>\<open>entries\<close> collection with its \<^verbatim>\<open>id\<close> added.
  \<^verbatim>\<open>date\<close> stands for the \<^verbatim>\<open>Date\<close> that
  \<^verbatim>\<open>entry.date?.toDate ? entry.date.toDate() : new Date(entry.date)\<close> yields.
  \<^verbatim>\<open>paymentMethod\<close> is written for expenses only; \<^verbatim>\<open>memo\<close> and \<^verbatim>\<open>recordedBy\<close> may be
  missing from a document.
\<close>

record entry =
  entryId :: jsstring
  date :: jsdate
  etype :: jsstring
  amount :: int
  category :: jsstring
  paymentMethod :: "jsstring option"
  memo :: "jsstring option"
  recordedBy :: "jsstring option"

section \<open>DashboardTab: the monthly summary\<close>

text \<open>
  Sort by date descending, the comparator of both tabs: \<^verbatim>\<open>(a, b) => dateB - dateA\<close>.
  \<^verbatim>\<open>filteredEntries\<close> keeps the entries whose time lies between the first instant of the
  current month and 23:59:59 of its last day, and sorts them. (The earlier revision stops
  after the filter; what is proved about \<open>summary\<close> holds for any list of entries.)
\<close>

definition byDateDescending :: "entry \<Rightarrow> entry \<Rightarrow> jsnum" where
  "byDateDescending a b = Num (getTime (date b) - getTime (date a))"

definition filteredEntries :: "dateConstructor \<Rightarrow> jsdate \<Rightarrow> entry list \<Rightarrow> entry list" where
  "filteredEntries newDate currentMonth entries =
     (let start = newDate (getFullYear currentMonth) (getMonth currentMonth) 1 0 0 0;
          end = newDate (getFullYear currentMonth) (getMonth currentMonth + 1) 0 23 59 59
      in arraySort byDateDescending
           (filter (\<lambda>entry. start \<le> getTime (date entry) \<and> getTime (date entry) \<le> end) entries))"

text \<open>
  What a property of \<^verbatim>\<open>categories\<close> holds is a number or a string. A string arises only
  when the amount is added to something that is not a number; such a string is not empty,
  is not the decimal form of a number, and nothing reads its content, so the content is
  not kept.
\<close>

datatype jsvalue = Number int | Text

record summary =
  totalIncome :: int
  totalExpense :: int
  netBalance :: int
  categoryExpenses :: "(jsstring \<times> jsvalue) list"

text \<open>
  \<^verbatim>\<open>categories[entry.category] || 0\<close>: \<^verbatim>\<open>undefined\<close> and the number \<open>0\<close> are falsy and
  give \<open>0\<close>; any other number, a string that is not empty and an inherited member are
  truthy and give themselves. The result is a number, or (\<open>None\<close>) something that is not.
\<close>

definition orZero :: "jsvalue member \<Rightarrow> int option" where
  "orZero x =
     (case x of
        Undefined \<Rightarrow> Some 0
      | Own (Number v) \<Rightarrow> Some (if v = 0 then 0 else v)
      | Own Text \<Rightarrow> None
      | Inherited \<Rightarrow> None)"

text \<open>
  \<^verbatim>\<open>(...) + entry.amount\<close>: two numbers are added; a string, a function or an object on
  the left makes \<^verbatim>\<open>+\<close> join its text and the digits of the amount into a string.
\<close>

definition plusAmount :: "int option \<Rightarrow> int \<Rightarrow> jsvalue" where
  "plusAmount x a = (case x of Some v \<Rightarrow> Number (numAdd v a) | None \<Rightarrow> Text)"

text \<open>The body of \<^verbatim>\<open>filteredEntries.forEach\<close>, on the three variables it updates.\<close>

definition accumulate ::
  "entry \<Rightarrow> int \<times> int \<times> jsvalue jsobject \<Rightarrow> int \<times> int \<times> jsvalue jsobject" where
  "accumulate entry = (\<lambda>(income, expense, categories).
     if etype entry = js ''income'' then (numAdd income (amount entry), expense, categories)
     else (income, numAdd expense (amount entry),
           writeProp (category entry)
             (plusAmount (orZero (readProp categories (category entry))) (amount entry))
             categories))"

text \<open>\<^verbatim>\<open>([, a], [, b]) => b - a\<close>; a string that is not a number makes the difference \<open>NaN\<close>.\<close>

definition byTotalDescending :: "jsstring \<times> jsvalue \<Rightarrow> jsstring \<times> jsvalue \<Rightarrow> jsnum" where
  "byTotalDescending p q =
     (case (snd q, snd p) of (Number b, Number a) \<Rightarrow> Num (numSub b a) | _ \<Rightarrow> NaN)"

definition summary :: "entry list \<Rightarrow> summary" where
  "summary filtered =
     (case fold accumulate filtered (0, 0, []) of (income, expense, categories) \<Rightarrow>
        \<lparr>totalIncome = income, totalExpense = expense, netBalance = numSub income expense,
         categoryExpenses = arraySort byTotalDescending (objectEntries categories)\<rparr>)"

definition summarize :: "dateConstructor \<Rightarrow> jsdate \<Rightarrow> entry list \<Rightarrow> summary" where
  "summarize newDate currentMonth entries = summary (filteredEntries newDate currentMonth entries)"

section \<open>DashboardTab: the six-month trend\<close>

record bucket =
  income :: int
  expense :: int
  month :: jsstring

text \<open>\<^verbatim>\<open>`${d.getFullYear()}-${(d.getMonth() + 1).toString().padStart(2, '0')}`\<close>\<close>

definition monthKey :: "int \<Rightarrow> int \<Rightarrow> jsstring" where
  "monthKey y m = showInt y @ js ''-'' @ padStart2 (showInt (m + 1))"

text \<open>\<^verbatim>\<open>`${date.getMonth() + 1}`\<close> followed by the syllable U+C6D4 ("month").\<close>

definition monthLabel :: "int \<Rightarrow> jsstring" where
  "monthLabel m = showInt (m + 1) @ [0xC6D4]"

text \<open>The \<^verbatim>\<open>for\<close> loop over \<open>i = 0, \<dots>, 5\<close>: the current month first, then the five before it.\<close>

definition initialMonthlyData :: "jsdate \<Rightarrow> bucket jsobject" where
  "initialMonthlyData today =
     fold (\<lambda>i monthlyData.
             case firstOfMonth (getFullYear today) (getMonth today - int i) of (y, m) \<Rightarrow>
               setProp (monthKey y m) \<lparr>income = 0, expense = 0, month = monthLabel m\<rparr> monthlyData)
          [0..<6] []"

text \<open>
  The body of \<^verbatim>\<open>entries.forEach\<close>; a bucket object is truthy, a missing key is not. A
  month key has a hyphen in it, so it is never the name of an inherited member and only
  own properties are read and written.
\<close>

definition addToMonth :: "entry \<Rightarrow> bucket jsobject \<Rightarrow> bucket jsobject" where
  "addToMonth entry monthlyData =
     (let k = monthKey (getFullYear (date entry)) (getMonth (date entry)) in
      case getProp monthlyData k of
        None \<Rightarrow> monthlyData
      | Some b \<Rightarrow>
          if etype entry = js ''income''
          then setProp k (b\<lparr>income := numAdd (income b) (amount entry)\<rparr>) monthlyData
          else setProp k (b\<lparr>expense := numAdd (expense b) (amount entry)\<rparr>) monthlyData)"

text \<open>
  The comparator of the final sort. It cuts the last code unit off the label
  (\<^verbatim>\<open>a.month.slice(0, -1)\<close>; the earlier revision takes what stands in front of the
  syllable, which is the same string), splits the rest at \<^verbatim>\<open>'-'\<close>, converts the pieces
  to numbers and destructures the first two as year and month:
  \<^verbatim>\<open>if (yearA !== yearB) return yearA - yearB; return monthA - monthB;\<close>
\<close>

definition byLabel :: "bucket \<Rightarrow> bucket \<Rightarrow> jsnum" where
  "byLabel a b =
     (let pa = map toNumber (split 45 (butlast (month a)));
          pb = map toNumber (split 45 (butlast (month b)));
          yearA = elementAt pa 0; monthA = elementAt pa 1;
          yearB = elementAt pb 0; monthB = elementAt pb 1
      in if strictNotEqual yearA yearB then jsMinus yearA yearB else jsMinus monthA monthB)"

definition trendData :: "jsdate \<Rightarrow> entry list \<Rightarrow> bucket list" where
  "trendData today entries =
     arraySort byLabel (objectValues (fold addToMonth entries (initialMonthlyData today)))"

section \<open>HistoryTab: filtering and sorting\<close>

record filterState =
  filterMonth :: jsstring
  filterType :: jsstring
  filterCategory :: jsstring
  filterPaymentMethod :: jsstring

text \<open>
  The four filter settings are strings; \<^verbatim>\<open>'all'\<close> is how a setting says that it does not
  constrain. Any other string, the empty one included, is compared with the entry's value.
  The callback of \<^verbatim>\<open>entries.filter\<close> follows; \<^verbatim>\<open>entryMonth\<close> is
  \<^verbatim>\<open>toISOString().substring(0, 7)\<close>.
\<close>

definition passesFilter :: "filterState \<Rightarrow> entry \<Rightarrow> bool" where
  "passesFilter f entry =
     (let entryMonth = isoMonth (date entry);
          matchesMonth = (filterMonth f = js ''all'' \<or> entryMonth = filterMonth f);
          matchesType = (filterType f = js ''all'' \<or> etype entry = filterType f);
          matchesCategory = (filterCategory f = js ''all'' \<or> category entry = filterCategory f);
          matchesPaymentMethod =
            (filterPaymentMethod f = js ''all'' \<or> paymentMethod entry = Some (filterPaymentMethod f))
      in matchesMonth \<and> matchesType \<and> matchesCategory \<and> matchesPaymentMethod)"

definition filteredAndSortedEntries :: "filterState \<Rightarrow> entry list \<Rightarrow> entry list" where
  "filteredAndSortedEntries f entries = arraySort byDateDescending (filter (passesFilter f) entries)"

section \<open>HistoryTab: the CSV download\<close>

text \<open>\<^verbatim>\<open>s.replace(/"/g, '""')\<close> and the template \<^verbatim>\<open>`"${s}"`\<close>; the double quote is code unit 34.\<close>

definition escapeQuotes :: "jsstring \<Rightarrow> jsstring" where
  "escapeQuotes s = concat (map (\<lambda>c. if c = 34 then [34, 34] else [c]) s)"

definition quoted :: "jsstring \<Rightarrow> jsstring" where
  "quoted s = 34 # s @ [34]"

text \<open>The two type labels are the Hangul words for income and for expense.\<close>

definition typeLabel :: "entry \<Rightarrow> jsstring" where
  "typeLabel entry = (if etype entry = js ''income'' then [0xC218, 0xC785] else [0xC9C0, 0xCD9C])"

text \<open>The array \<^verbatim>\<open>row\<close> of \<^verbatim>\<open>src/App.js\<close>.\<close>

definition csvFields :: "entry \<Rightarrow> jsstring list" where
  "csvFields entry =
     [quoted (toLocaleDateString (date entry)),
      quoted (typeLabel entry),
      quoted (category entry),
      showInt (amount entry),
      quoted (orEmpty (paymentMethod entry)),
      quoted (orEmpty (map_option escapeQuotes (memo entry))),
      quoted (orEmpty (map_option (take 8) (recordedBy entry)))]"

definition headers :: "jsstring list" where
  "headers =
     [[0xB0A0, 0xC9DC], [0xC720, 0xD615], [0xCE74, 0xD14C, 0xACE0, 0xB9AC], [0xAE08, 0xC561],
      [0xACB0, 0xC81C, 0xC218, 0xB2E8], [0xBA54, 0xBAA8], [0xAE30, 0xB85D, 0xC790]]"

definition csvString :: "entry list \<Rightarrow> jsstring" where
  "csvString rows =
     0xFEFF # join [10] (join [44] (map quoted headers) # map (\<lambda>entry. join [44] (csvFields entry)) rows)"

text \<open>
  What the handler does is a message shown to the user and, when there is one, the file
  handed to the browser: its name and its content.
\<close>

record exportResult =
  download :: "(jsstring \<times> jsstring) option"
  message :: jsstring

definition nothingToDownload :: jsstring where
  "nothingToDownload =
     [0xB2E4, 0xC6B4, 0xB85C, 0xB4DC, 0xD560, 0x20, 0xB0B4, 0xC5ED, 0xC774, 0x20,
      0xC5C6, 0xC2B5, 0xB2C8, 0xB2E4, 0x2E]"

definition downloaded :: jsstring where
  "downloaded =
     js ''CSV '' @ [0xD30C, 0xC77C, 0xC774, 0x20, 0xB2E4, 0xC6B4, 0xB85C, 0xB4DC, 0xB418, 0xC5C8,
      0xC2B5, 0xB2C8, 0xB2E4, 0x2E]"

definition fileName :: "jsstring \<Rightarrow> jsstring" where
  "fileName selectedMonth =
     [0xAC00, 0xACC4, 0xBD80, 0x5F, 0xB0B4, 0xC5ED, 0x5F]
     @ (if selectedMonth = [] then [0xC804, 0xCCB4] else selectedMonth) @ js ''.csv''"

definition handleDownloadCsv :: "jsstring \<Rightarrow> entry list \<Rightarrow> exportResult" where
  "handleDownloadCsv selectedMonth rows =
     (if length rows = 0 then \<lparr>download = None, message = nothingToDownload\<rparr>
      else \<lparr>download = Some (fileName selectedMonth, csvString rows), message = downloaded\<rparr>)"

subsection \<open>The earlier revision of the handler\<close>

text \<open>
  The other copy of the file calls \<^verbatim>\<open>entry.memo.replace\<close> without the \<^verbatim>\<open>?.\<close> guard,
  leaves the header unquoted and writes no byte-order mark. A method call on
  \<^verbatim>\<open>undefined\<close> throws; the exception leaves the handler before anything is shown or
  downloaded.
\<close>

datatype jserror = TypeError

definition csvFieldsEarlier :: "entry \<Rightarrow> jserror + jsstring list" where
  "csvFieldsEarlier entry =
     (case memo entry of
        None \<Rightarrow> Inl TypeError
      | Some m \<Rightarrow>
          Inr [quoted (toLocaleDateString (date entry)),
               quoted (typeLabel entry),
               quoted (category entry),
               showInt (amount entry),
               quoted (orEmpty (paymentMethod entry)),
               quoted (escapeQuotes m),
               quoted (orEmpty (map_option (take 8) (recordedBy entry)))])"

fun csvRowsEarlier :: "entry list \<Rightarrow> jserror + jsstring list" where
  "csvRowsEarlier [] = Inr []"
| "csvRowsEarlier (entry # rest) =
     (case csvFieldsEarlier entry of
        Inl err \<Rightarrow> Inl err
      | Inr row \<Rightarrow>
          (case csvRowsEarlier rest of
             Inl err \<Rightarrow> Inl err
           | Inr csvRows \<Rightarrow> Inr (join [44] row # csvRows)))"

definition handleDownloadCsvEarlier :: "jsstring \<Rightarrow> entry list \<Rightarrow> jserror + exportResult" where
  "handleDownloadCsvEarlier selectedMonth rows =
     (if length rows = 0 then Inr \<lparr>download = None, message = nothingToDownload\<rparr>
      else (case csvRowsEarlier rows of
              Inl err \<Rightarrow> Inl err
            | Inr csvRows \<Rightarrow>
                Inr \<lparr>download = Some (fileName selectedMonth, join [10] (join [44] headers # csvRows)),
                     message = downloaded\<rparr>))"

section \<open>Notions the properties are stated with\<close>

text \<open>
  Numbers added one after the other to a running total, as the language adds them, and
  the amounts of the entries that satisfy a condition added in this way to a total that
  starts at \<open>s\<close>, or at \<open>0\<close>.
\<close>

definition addUp :: "int \<Rightarrow> int list \<Rightarrow> int" where
  "addUp s xs = fold (\<lambda>a t. numAdd t a) xs s"

definition amountFrom :: "int \<Rightarrow> (entry \<Rightarrow> bool) \<Rightarrow> entry list \<Rightarrow> int" where
  "amountFrom s P es = addUp s (map amount (filter P es))"

definition amountOf :: "(entry \<Rightarrow> bool) \<Rightarrow> entry list \<Rightarrow> int" where
  "amountOf P es = amountFrom 0 P es"

text \<open>The number that a value of the breakdown is.\<close>

definition theNumber :: "jsvalue \<Rightarrow> int" where
  "theNumber v = (case v of Number n \<Rightarrow> n | Text \<Rightarrow> 0)"

definition isIncome :: "entry \<Rightarrow> bool" where
  "isIncome e = (etype e = js ''income'')"

text \<open>The month key that \<^verbatim>\<open>trendData\<close> computes for an entry.\<close>

definition entryMonthKey :: "entry \<Rightarrow> jsstring" where
  "entryMonthKey e = monthKey (getFullYear (date e)) (getMonth (date e))"

text \<open>
  The month \<open>i\<close> months before the month of \<open>today\<close>: its key, and its bucket with
  nothing added yet, as round \<open>i\<close> of the \<^verbatim>\<open>for\<close> loop of \<^verbatim>\<open>trendData\<close> makes them
  from \<^verbatim>\<open>new Date(today.getFullYear(), today.getMonth() - i, 1)\<close>.
\<close>

definition windowKey :: "jsdate \<Rightarrow> nat \<Rightarrow> jsstring" where
  "windowKey today i =
     monthKey (fst (firstOfMonth (getFullYear today) (getMonth today - int i)))
              (snd (firstOfMonth (getFullYear today) (getMonth today - int i)))"

definition windowBucket :: "jsdate \<Rightarrow> nat \<Rightarrow> bucket" where
  "windowBucket today i =
     \<lparr>income = 0, expense = 0,
      month = monthLabel (snd (firstOfMonth (getFullYear today) (getMonth today - int i)))\<rparr>"

text \<open>The elements of a list in the order in which each is met first.\<close>

primrec firstSeen :: "'a list \<Rightarrow> 'a list" where
  "firstSeen [] = []"
| "firstSeen (x # xs) = x # filter (\<lambda>y. y \<noteq> x) (firstSeen xs)"

text \<open>
  Reading a quoted field back: a doubled quote stands for one quote. \<open>quotesPaired\<close>
  holds when no quote stands alone.
\<close>

fun unescapeQuotes :: "jsstring \<Rightarrow> jsstring" where
  "unescapeQuotes (c # d # cs) =
     (if c = 34 \<and> d = 34 then 34 # unescapeQuotes cs else c # unescapeQuotes (d # cs))"
| "unescapeQuotes cs = cs"

fun quotesPaired :: "jsstring \<Rightarrow> bool" where
  "quotesPaired [] = True"
| "quotesPaired [c] = (c \<noteq> 34)"
| "quotesPaired (c # d # cs) =
     (if c = 34 then d = 34 \<and> quotesPaired cs else quotesPaired (d # cs))"

text \<open>
  The months of a window of \<open>n\<close> consecutive calendar months that ends at month \<open>m\<close>
  (zero-based) of year \<open>y\<close>, oldest first, as (year, month) pairs.
\<close>

definition windowMonths :: "nat \<Rightarrow> int \<Rightarrow> int \<Rightarrow> (int \<times> int) list" where
  "windowMonths n y m =
     map (\<lambda>i. ((y * 12 + m - int (n - 1 - i)) div 12, (y * 12 + m - int (n - 1 - i)) mod 12)) [0..<n]"

subsection \<open>Auxiliary notions of the proofs\<close>

text \<open>
  What one entry does to the bucket stored under key \<open>k\<close>, and what a list of entries
  does to it.
\<close>

definition bump :: "entry \<Rightarrow> jsstring \<Rightarrow> bucket \<Rightarrow> bucket" where
  "bump e k b =
     (if k = entryMonthKey e
      then (if isIncome e then b\<lparr>income := numAdd (income b) (amount e)\<rparr>
            else b\<lparr>expense := numAdd (expense b) (amount e)\<rparr>)
      else b)"

definition settle :: "entry list \<Rightarrow> jsstring \<Rightarrow> bucket \<Rightarrow> bucket" where
  "settle es k b =
     b\<lparr>income := amountFrom (income b) (\<lambda>e. isIncome e \<and> entryMonthKey e = k) es,
       expense := amountFrom (expense b) (\<lambda>e. \<not> isIncome e \<and> entryMonthKey e = k) es\<rparr>"

text \<open>The number the final sort of \<^verbatim>\<open>trendData\<close> reads off a bucket's label.\<close>

definition labelNumber :: "bucket \<Rightarrow> int" where
  "labelNumber b =
     (case map toNumber (split 45 (butlast (month b))) of [Num n] \<Rightarrow> n | _ \<Rightarrow> 0)"

subsection \<open>A worked ledger\<close>

text \<open>
  Three entries as a host in UTC sees them: food bought on 5 March 2024 and on
  20 February 2024, a salary paid on 10 March 2024. \<open>midFebruary\<close> is 15 February 2024.
\<close>

definition day5March :: jsdate where
  "day5March =
     \<lparr>getTime = 1709596800000, getFullYear = 2024, getMonth = 2,
      isoMonth = js ''2024-03'', toLocaleDateString = js ''2024. 3. 5.''\<rparr>"

definition day10March :: jsdate where
  "day10March =
     \<lparr>getTime = 1710028800000, getFullYear = 2024, getMonth = 2,
      isoMonth = js ''2024-03'', toLocaleDateString = js ''2024. 3. 10.''\<rparr>"

definition day20February :: jsdate where
  "day20February =
     \<lparr>getTime = 1708387200000, getFullYear = 2024, getMonth = 1,
      isoMonth = js ''2024-02'', toLocaleDateString = js ''2024. 2. 20.''\<rparr>"

definition midFebruary :: jsdate where
  "midFebruary =
     \<lparr>getTime = 1707955200000, getFullYear = 2024, getMonth = 1,
      isoMonth = js ''2024-02'', toLocaleDateString = js ''2024. 2. 15.''\<rparr>"

definition foodInMarch :: entry where
  "foodInMarch =
     \<lparr>entryId = js ''a1'', date = day5March, etype = js ''expense'', amount = 15000,
      category = js ''Food'', paymentMethod = Some (js ''Card''),
      memo = Some (js ''He said '' @ 34 # js ''hi'' @ [34]),
      recordedBy = Some (js ''uid-0123456789'')\<rparr>"

definition salaryInMarch :: entry where
  "salaryInMarch =
     \<lparr>entryId = js ''a2'', date = day10March, etype = js ''income'', amount = 500000,
      category = js ''Salary'', paymentMethod = None, memo = Some [],
      recordedBy = Some (js ''uid-0123456789'')\<rparr>"

definition foodInFebruary :: entry where
  "foodInFebruary =
     \<lparr>entryId = js ''a3'', date = day20February, etype = js ''expense'', amount = 8000,
      category = js ''Food'', paymentMethod = Some (js ''Cash''), memo = None,
      recordedBy = None\<rparr>"

text \<open>An entry whose type is neither \<^verbatim>\<open>income\<close> nor \<^verbatim>\<open>expense\<close>.\<close>

definition transferInMarch :: entry where
  "transferInMarch =
     \<lparr>entryId = js ''a4'', date = day10March, etype = js ''transfer'', amount = 300,
      category = js ''Other'', paymentMethod = None, memo = None, recordedBy = None\<rparr>"

text \<open>
  A bus pass bought on 10 March 2024 for the price of the food, and a ledger in which the
  food comes first.
\<close>

definition busInMarch :: entry where
  "busInMarch =
     \<lparr>entryId = js ''a5'', date = day10March, etype = js ''expense'', amount = 15000,
      category = js ''Bus'', paymentMethod = Some (js ''Card''), memo = Some [],
      recordedBy = None\<rparr>"

definition tiedLedger :: "entry list" where
  "tiedLedger = [foodInMarch, busInMarch, salaryInMarch]"

text \<open>Two expenses of the same amount whose category labels are the numerals 2 and 1.\<close>

definition labelledTwo :: entry where
  "labelledTwo =
     \<lparr>entryId = js ''b1'', date = day5March, etype = js ''expense'', amount = 5000,
      category = js ''2'', paymentMethod = Some (js ''Cash''), memo = Some [],
      recordedBy = None\<rparr>"

definition labelledOne :: entry where
  "labelledOne =
     \<lparr>entryId = js ''b2'', date = day5March, etype = js ''expense'', amount = 5000,
      category = js ''1'', paymentMethod = Some (js ''Cash''), memo = Some [],
      recordedBy = None\<rparr>"

text \<open>Expenses whose category labels are names of inherited members.\<close>

definition labelledProto :: entry where
  "labelledProto =
     \<lparr>entryId = js ''b3'', date = day5March, etype = js ''expense'', amount = 100,
      category = js ''__proto__'', paymentMethod = Some (js ''Cash''), memo = Some [],
      recordedBy = None\<rparr>"

definition labelledConstructor :: entry where
  "labelledConstructor =
     \<lparr>entryId = js ''b4'', date = day5March, etype = js ''expense'', amount = 100,
      category = js ''constructor'', paymentMethod = Some (js ''Cash''), memo = Some [],
      recordedBy = None\<rparr>"

text \<open>An expense of \<open>2\<^sup>5\<^sup>3\<close> and two expenses of \<open>1\<close> in another category.\<close>

definition hugeExpense :: entry where
  "hugeExpense =
     \<lparr>entryId = js ''b5'', date = day5March, etype = js ''expense'', amount = 9007199254740992,
      category = js ''Big'', paymentMethod = Some (js ''Cash''), memo = Some [],
      recordedBy = None\<rparr>"

definition smallExpense :: entry where
  "smallExpense =
     \<lparr>entryId = js ''b6'', date = day5March, etype = js ''expense'', amount = 1,
      category = js ''Small'', paymentMethod = Some (js ''Cash''), memo = Some [],
      recordedBy = None\<rparr>"

definition smallAgain :: entry where
  "smallAgain =
     \<lparr>entryId = js ''b7'', date = day5March, etype = js ''expense'', amount = 1,
      category = js ''Small'', paymentMethod = Some (js ''Cash''), memo = Some [],
      recordedBy = None\<rparr>"

text \<open>An expense whose category label has double quotes in it.\<close>

definition quotedCategory :: entry where
  "quotedCategory =
     \<lparr>entryId = js ''a7'', date = day5March, etype = js ''expense'', amount = 700,
      category = js ''Food '' @ 34 # js ''out'' @ [34], paymentMethod = Some (js ''Cash''),
      memo = Some [], recordedBy = None\<rparr>"

text \<open>Filters: everything, card payments of March 2024, and a category nobody used.\<close>

definition everything :: filterState where
  "everything =
     \<lparr>filterMonth = js ''all'', filterType = js ''all'', filterCategory = js ''all'',
      filterPaymentMethod = js ''all''\<rparr>"

definition cardInMarch :: filterState where
  "cardInMarch =
     \<lparr>filterMonth = js ''2024-03'', filterType = js ''all'', filterCategory = js ''all'',
      filterPaymentMethod = js ''Card''\<rparr>"

definition rentOnly :: filterState where
  "rentOnly =
     \<lparr>filterMonth = js ''all'', filterType = js ''all'', filterCategory = js ''Rent'',
      filterPaymentMethod = js ''all''\<rparr>"

definition ledger :: "entry list" where
  "ledger = [foodInMarch, salaryInMarch, foodInFebruary]"

section \<open>Numbers\<close>

lemma expOf_small: "n < 2 ^ 53 \<Longrightarrow> expOf n = 0"
  by (simp add: expOf.simps)

lemma roundDouble_exact: "\<bar>x\<bar> < 2 ^ 53 \<Longrightarrow> roundDouble x = x"
proof -
  assume "\<bar>x\<bar> < 2 ^ 53"
  then have "nat \<bar>x\<bar> < 2 ^ 53"
    by (simp add: nat_less_iff)
  then have "expOf (nat \<bar>x\<bar>) = 0"
    by (rule expOf_small)
  then show ?thesis
    by (simp add: roundDouble_def Let_def mult_sgn_abs)
qed

lemma expOf_leading: "0 < n \<Longrightarrow> 0 < n div 2 ^ expOf n"
proof (induction n rule: expOf.induct)
  case (1 n)
  show ?case
  proof (cases "n < 2 ^ 53")
    case True
    with 1 show ?thesis by (simp add: expOf_small)
  next
    case False
    then have "0 < n div 2" by simp
    with False 1 have "0 < n div 2 div 2 ^ expOf (n div 2)" by simp
    moreover from False have "expOf n = Suc (expOf (n div 2))"
      by (simp add: expOf.simps [of n])
    ultimately show ?thesis
      by (simp add: div_mult2_eq)
  qed
qed

text \<open>Rounding keeps the sign, so a comparator may read it off the rounded difference.\<close>

lemma roundDouble_sign: "(roundDouble x \<le> 0) = (x \<le> 0)"
proof (cases "x \<le> 0")
  case True
  then have "sgn x \<le> 0" by (simp add: sgn_if)
  then have "roundDouble x \<le> 0"
    unfolding roundDouble_def Let_def by (intro mult_nonpos_nonneg) simp_all
  with True show ?thesis by simp
next
  case False
  then have pos: "0 < nat \<bar>x\<bar>" and s: "sgn x = 1" by simp_all
  let ?n = "nat \<bar>x\<bar>"
  have "0 < ?n div 2 ^ expOf ?n"
    using pos by (rule expOf_leading)
  then have "0 < roundDouble x"
    unfolding roundDouble_def Let_def s by simp
  with False show ?thesis by simp
qed

lemma numAdd_exact: "\<bar>a + b\<bar> < 2 ^ 53 \<Longrightarrow> numAdd a b = a + b"
  by (simp add: numAdd_def roundDouble_exact)

lemma numSub_exact: "\<bar>a - b\<bar> < 2 ^ 53 \<Longrightarrow> numSub a b = a - b"
  by (simp add: numSub_def roundDouble_exact)

lemma expOf_values:
  "expOf 9007199254740992 = 1"
  "expOf 9007199254740993 = 1"
  by (subst expOf.simps, simp add: expOf_small)+

text \<open>\<open>2\<^sup>5\<^sup>3\<close> is held exactly, and adding \<open>1\<close> to it changes nothing.\<close>

lemma numAdd_values:
  "numAdd 0 9007199254740992 = 9007199254740992"
  "numAdd 9007199254740992 1 = 9007199254740992"
  by (simp_all add: numAdd_def roundDouble_def Let_def expOf_values)

lemma addUp_Nil [simp]: "addUp s [] = s"
  by (simp add: addUp_def)

lemma addUp_Cons [simp]: "addUp s (a # xs) = addUp (numAdd s a) xs"
  by (simp add: addUp_def)

lemma addUp_exact:
  assumes "\<forall>a\<in>set xs. 0 \<le> a" and "0 \<le> s" and "s + sum_list xs < 2 ^ 53"
  shows "addUp s xs = s + sum_list xs"
  using assms
proof (induction xs arbitrary: s)
  case Nil
  show ?case by simp
next
  case (Cons a xs)
  have a: "0 \<le> a" and rest: "\<forall>a\<in>set xs. 0 \<le> a"
    using Cons.prems(1) by simp_all
  have "0 \<le> sum_list xs"
    using rest by (simp add: sum_list_nonneg)
  with Cons.prems a have "\<bar>s + a\<bar> < 2 ^ 53"
    by simp
  then have step: "numAdd s a = s + a"
    by (rule numAdd_exact)
  have "addUp (s + a) xs = s + a + sum_list xs"
    using rest a Cons.prems(2,3) by (intro Cons.IH) simp_all
  with step show ?case by simp
qed

lemma amountFrom_Nil [simp]: "amountFrom s P [] = s"
  by (simp add: amountFrom_def)

lemma amountFrom_Cons [simp]:
  "amountFrom s P (e # es) =
     (if P e then amountFrom (numAdd s (amount e)) P es else amountFrom s P es)"
  by (simp add: amountFrom_def)

lemma amountFrom_none: "\<forall>e\<in>set es. \<not> P e \<Longrightarrow> amountFrom s P es = s"
  by (induction es) simp_all

section \<open>Sorting, objects and the summary loop\<close>

lemma insertSorted_insort_key:
  assumes "\<And>x y. (sortCompare comparefn x y \<le> 0) = (key x \<le> key y)"
  shows "insertSorted comparefn x ys = insort_key key x ys"
  by (induction ys) (simp_all add: assms)

lemma arraySort_sort_key:
  assumes "\<And>x y. (sortCompare comparefn x y \<le> 0) = (key x \<le> key y)"
  shows "arraySort comparefn xs = sort_key key xs"
proof -
  have "insertSorted comparefn = insort_key key"
    by (intro ext) (rule insertSorted_insort_key [OF assms])
  then show ?thesis by (simp add: arraySort_def sort_key_def)
qed

lemma insertSorted_insort_key_on:
  assumes "\<And>y. y \<in> set ys \<Longrightarrow> (sortCompare comparefn x y \<le> 0) = (key x \<le> key y)"
  shows "insertSorted comparefn x ys = insort_key key x ys"
  using assms by (induction ys) simp_all

lemma arraySort_sort_key_on:
  assumes "\<And>x y. x \<in> set xs \<Longrightarrow> y \<in> set xs \<Longrightarrow>
    (sortCompare comparefn x y \<le> 0) = (key x \<le> key y)"
  shows "arraySort comparefn xs = sort_key key xs"
  using assms
proof (induction xs)
  case Nil
  show ?case by (simp add: arraySort_def)
next
  case (Cons x xs)
  have tail: "arraySort comparefn xs = sort_key key xs"
    by (rule Cons.IH) (simp add: Cons.prems)
  have "insertSorted comparefn x (sort_key key xs) = insort_key key x (sort_key key xs)"
    by (rule insertSorted_insort_key_on) (simp add: Cons.prems)
  with tail show ?case
    by (simp add: arraySort_def)
qed

lemma arraySort_byDateDescending:
  "arraySort byDateDescending xs = sort_key (\<lambda>e. - getTime (date e)) xs"
  by (rule arraySort_sort_key) (simp add: sortCompare_def byDateDescending_def)

text \<open>On totals that are numbers the comparator of the breakdown orders by the number.\<close>

lemma arraySort_byTotalDescending:
  assumes "\<forall>p\<in>set xs. \<exists>n. snd p = Number n"
  shows "arraySort byTotalDescending xs = sort_key (\<lambda>p. - theNumber (snd p)) xs"
proof (rule arraySort_sort_key_on)
  fix x y
  assume "x \<in> set xs" and "y \<in> set xs"
  with assms obtain a b where "snd x = Number a" and "snd y = Number b"
    by blast
  then show "(sortCompare byTotalDescending x y \<le> 0) = (- theNumber (snd x) \<le> - theNumber (snd y))"
    by (simp add: sortCompare_def byTotalDescending_def theNumber_def numSub_def roundDouble_sign)
qed

lemma mset_insertSorted: "mset (insertSorted comparefn x ys) = add_mset x (mset ys)"
  by (induction ys) simp_all

lemma mset_arraySort: "mset (arraySort comparefn xs) = mset xs"
  by (induction xs) (simp_all add: arraySort_def mset_insertSorted)

lemma set_arraySort: "set (arraySort comparefn xs) = set xs"
  using mset_arraySort [of comparefn xs] by (metis set_mset_mset)

lemma mset_objectEntries: "mset (objectEntries obj) = mset obj"
  by (simp add: objectEntries_def)

lemma objectEntries_plain:
  assumes "\<forall>k\<in>set (map fst obj). arrayIndex k = None"
  shows "objectEntries obj = obj"
proof -
  have "filter (\<lambda>kv. arrayIndex (fst kv) \<noteq> None) obj = []"
    using assms by (auto simp: filter_empty_conv)
  moreover have "filter (\<lambda>kv. arrayIndex (fst kv) = None) obj = obj"
    using assms by (auto simp: filter_id_conv)
  ultimately show ?thesis by (simp add: objectEntries_def)
qed

lemma getProp_setProp:
  "getProp (setProp k v obj) k' = (if k' = k then Some v else getProp obj k')"
  by (induction obj) (auto simp: getProp_def)

lemma keys_setProp:
  "map fst (setProp k v obj) = (if k \<in> set (map fst obj) then map fst obj else map fst obj @ [k])"
  by (induction obj) force+

lemma distinct_setProp:
  "distinct (map fst obj) \<Longrightarrow> distinct (map fst (setProp k v obj))"
  by (simp add: keys_setProp)

lemma set_setProp_cases: "p \<in> set (setProp k v obj) \<Longrightarrow> p = (k, v) \<or> p \<in> set obj"
  by (induction obj) (auto split: if_splits)

lemma distinct_writeProp:
  "distinct (map fst obj) \<Longrightarrow> distinct (map fst (writeProp k v obj))"
  by (simp add: writeProp_def distinct_setProp)

lemma js_literals:
  "js ''income'' = [105, 110, 99, 111, 109, 101]"
  "js ''expense'' = [101, 120, 112, 101, 110, 115, 101]"
  "js ''all'' = [97, 108, 108]"
  "js ''Food'' = [70, 111, 111, 100]"
  "js ''Salary'' = [83, 97, 108, 97, 114, 121]"
  by (simp_all add: js_def)

lemma inheritedNames_literals:
  "inheritedNames =
     [[99, 111, 110, 115, 116, 114, 117, 99, 116, 111, 114],
      [104, 97, 115, 79, 119, 110, 80, 114, 111, 112, 101, 114, 116, 121],
      [105, 115, 80, 114, 111, 116, 111, 116, 121, 112, 101, 79, 102],
      [112, 114, 111, 112, 101, 114, 116, 121, 73, 115, 69, 110, 117, 109, 101, 114, 97, 98, 108, 101],
      [116, 111, 76, 111, 99, 97, 108, 101, 83, 116, 114, 105, 110, 103],
      [116, 111, 83, 116, 114, 105, 110, 103],
      [118, 97, 108, 117, 101, 79, 102],
      [95, 95, 100, 101, 102, 105, 110, 101, 71, 101, 116, 116, 101, 114, 95, 95],
      [95, 95, 100, 101, 102, 105, 110, 101, 83, 101, 116, 116, 101, 114, 95, 95],
      [95, 95, 108, 111, 111, 107, 117, 112, 71, 101, 116, 116, 101, 114, 95, 95],
      [95, 95, 108, 111, 111, 107, 117, 112, 83, 101, 116, 116, 101, 114, 95, 95],
      [95, 95, 112, 114, 111, 116, 111, 95, 95]]"
  by (simp add: inheritedNames_def js_def)

lemma proto_inherited: "js ''__proto__'' \<in> set inheritedNames"
  by (simp add: inheritedNames_def)

text \<open>
  What the loop does with an expense whose category is not the name of an inherited
  member: the category's running total, \<open>0\<close> if there is none yet, grows by the amount.
\<close>

lemma accumulate_income:
  "isIncome e \<Longrightarrow> accumulate e (i, x, c) = (numAdd i (amount e), x, c)"
  by (simp add: accumulate_def isIncome_def)

lemma accumulate_plain:
  assumes "\<not> isIncome e" and "category e \<notin> set inheritedNames"
    and "\<forall>p\<in>set c. \<exists>n. snd p = Number n"
  shows "accumulate e (i, x, c) =
    (i, numAdd x (amount e),
     setProp (category e)
       (Number (numAdd (case map_of c (category e) of None \<Rightarrow> 0 | Some v \<Rightarrow> theNumber v) (amount e))) c)"
proof -
  have w: "writeProp (category e) v c = setProp (category e) v c" for v
    using assms(2) proto_inherited by (auto simp: writeProp_def)
  show ?thesis
  proof (cases "map_of c (category e)")
    case None
    then show ?thesis
      using assms(1,2) by (simp add: accumulate_def isIncome_def w readProp_def orZero_def plusAmount_def)
  next
    case (Some v)
    then have "(category e, v) \<in> set c"
      by (rule map_of_SomeD)
    with assms(3) obtain n where "v = Number n"
      by fastforce
    with Some show ?thesis
      using assms(1) by (simp add: accumulate_def isIncome_def w readProp_def orZero_def plusAmount_def theNumber_def)
  qed
qed

lemma fold_accumulate_income:
  "fst (fold accumulate es (i, x, c)) = amountFrom i isIncome es"
  by (induction es arbitrary: i x c) (simp_all add: accumulate_def isIncome_def)

lemma fold_accumulate_expense:
  "fst (snd (fold accumulate es (i, x, c))) = amountFrom x (\<lambda>e. \<not> isIncome e) es"
  by (induction es arbitrary: i x c) (simp_all add: accumulate_def isIncome_def)

lemma fold_accumulate_keys_distinct:
  "distinct (map fst c) \<Longrightarrow> distinct (map fst (snd (snd (fold accumulate es (i, x, c)))))"
  by (induction es arbitrary: i x c) (simp_all add: accumulate_def distinct_writeProp)

lemma fold_accumulate_numbers:
  assumes "\<forall>e\<in>set es. category e \<notin> set inheritedNames"
    and "\<forall>p\<in>set c. \<exists>n. snd p = Number n"
  shows "\<forall>p\<in>set (snd (snd (fold accumulate es (i, x, c)))). \<exists>n. snd p = Number n"
  using assms
proof (induction es arbitrary: i x c)
  case Nil
  then show ?case by simp
next
  case (Cons e es)
  show ?case
  proof (cases "isIncome e")
    case True
    then show ?thesis
      using Cons.IH [of c "numAdd i (amount e)" x] Cons.prems
      by (simp add: accumulate_income)
  next
    case False
    let ?v = "Number (numAdd (case map_of c (category e) of None \<Rightarrow> 0 | Some v \<Rightarrow> theNumber v) (amount e))"
    let ?c = "setProp (category e) ?v c"
    have step: "accumulate e (i, x, c) = (i, numAdd x (amount e), ?c)"
      using False Cons.prems by (intro accumulate_plain) simp_all
    have "\<forall>p\<in>set ?c. \<exists>n. snd p = Number n"
    proof
      fix p
      assume "p \<in> set ?c"
      then have "p = (category e, ?v) \<or> p \<in> set c"
        by (rule set_setProp_cases)
      then show "\<exists>n. snd p = Number n"
        using Cons.prems(2) by auto
    qed
    then show ?thesis
      using Cons.IH [of ?c i "numAdd x (amount e)"] Cons.prems(1)
      by (simp add: step)
  qed
qed

lemma summary_fields:
  "totalIncome (summary es) = fst (fold accumulate es (0, 0, []))"
  "totalExpense (summary es) = fst (snd (fold accumulate es (0, 0, [])))"
  "netBalance (summary es) =
     numSub (fst (fold accumulate es (0, 0, []))) (fst (snd (fold accumulate es (0, 0, []))))"
  "categoryExpenses (summary es) = arraySort byTotalDescending (objectEntries (snd (snd (fold accumulate es (0, 0, [])))))"
  by (simp_all add: summary_def split: prod.splits)

lemma summary_totals:
  "totalIncome (summary es) = amountOf isIncome es"
  "totalExpense (summary es) = amountOf (\<lambda>e. \<not> isIncome e) es"
  by (simp_all add: summary_fields fold_accumulate_income fold_accumulate_expense amountOf_def)

lemma sum_list_mset_cong:
  assumes "mset xs = mset ys"
  shows "sum_list (map f xs) = (sum_list (map f ys) :: int)"
proof -
  have "sum_mset (image_mset f (mset xs)) = sum_mset (image_mset f (mset ys))"
    by (simp only: assms)
  then have "sum_mset (mset (map f xs)) = sum_mset (mset (map f ys))"
    by (simp only: mset_map)
  then show ?thesis by (simp only: sum_mset_sum_list)
qed

lemma utcDate_2024:
  "utcDate 2024 1 1 0 0 0 = 1706745600000"
  "utcDate 2024 2 0 23 59 59 = 1709251199000"
  "utcDate 2024 2 1 0 0 0 = 1709251200000"
  "utcDate 2024 3 0 23 59 59 = 1711929599000"
  by (simp_all add: utcDate_def firstOfMonth_def daysFromCivil_def Let_def)

lemmas ledger_defs =
  ledger_def foodInMarch_def salaryInMarch_def foodInFebruary_def
  day5March_def day10March_def day20February_def midFebruary_def

lemma filteredEntries_march:
  "filteredEntries utcDate day5March ledger = [salaryInMarch, foodInMarch]"
  by (simp add: filteredEntries_def Let_def utcDate_2024 ledger_defs arraySort_def
      sortCompare_def byDateDescending_def)

lemma filteredEntries_february:
  "filteredEntries utcDate midFebruary ledger = [foodInFebruary]"
  by (simp add: filteredEntries_def Let_def utcDate_2024 ledger_defs arraySort_def
      sortCompare_def byDateDescending_def)

lemma ledger_in_march:
  "totalIncome (summarize utcDate day5March ledger) = 500000"
  "totalExpense (summarize utcDate day5March ledger) = 15000"
  by (simp_all add: summarize_def filteredEntries_march summary_totals amountOf_def isIncome_def
      foodInMarch_def salaryInMarch_def js_literals numAdd_exact)

lemma ledger_in_february:
  "totalIncome (summarize utcDate midFebruary ledger) = 0"
  "totalExpense (summarize utcDate midFebruary ledger) = 8000"
  by (simp_all add: summarize_def filteredEntries_february summary_totals amountOf_def isIncome_def
      foodInFebruary_def js_literals numAdd_exact)

text \<open>
  C4: for every collection of entries and every month, the net balance of the summary is
  its total income minus its total expense, by the subtraction of the language, which is
  the plain difference of the two whole numbers whenever that stays below \<open>2\<^sup>5\<^sup>3\<close> in
  magnitude. The value can be negative: February 2024 of the worked ledger has an expense
  and no income.
\<close>

theorem summarize_netBalance:
  "netBalance (summarize newDate currentMonth entries) =
     numSub (totalIncome (summarize newDate currentMonth entries))
            (totalExpense (summarize newDate currentMonth entries))
   \<and> (\<bar>totalIncome (summarize newDate currentMonth entries)
        - totalExpense (summarize newDate currentMonth entries)\<bar> < 2 ^ 53 \<longrightarrow>
      netBalance (summarize newDate currentMonth entries) =
        totalIncome (summarize newDate currentMonth entries)
        - totalExpense (summarize newDate currentMonth entries))
   \<and> netBalance (summarize utcDate midFebruary ledger) < 0"
proof (intro conjI impI)
  show eq: "netBalance (summarize newDate currentMonth entries) =
     numSub (totalIncome (summarize newDate currentMonth entries))
            (totalExpense (summarize newDate currentMonth entries))" for newDate currentMonth entries
    by (simp add: summarize_def summary_fields)
  show "netBalance (summarize newDate currentMonth entries) =
        totalIncome (summarize newDate currentMonth entries)
        - totalExpense (summarize newDate currentMonth entries)"
    if "\<bar>totalIncome (summarize newDate currentMonth entries)
        - totalExpense (summarize newDate currentMonth entries)\<bar> < 2 ^ 53"
    using that by (simp add: eq numSub_exact)
  show "netBalance (summarize utcDate midFebruary ledger) < 0"
    by (simp add: eq ledger_in_february numSub_exact)
qed

theorem summarize_netBalance_witness:
  "netBalance (summarize utcDate day5March ledger) = 485000"
  using summarize_netBalance [of utcDate day5March ledger]
  by (simp add: ledger_in_march)

text \<open>
  When no category is the name of an inherited member, the amounts are not negative and
  their sum stays below \<open>2\<^sup>5\<^sup>3\<close>, every addition of the loop is exact and the totals of
  the categories grow together with the total expense.
\<close>

lemma total_setProp:
  "sum_list (map (\<lambda>p. theNumber (snd p))
     (setProp k (Number ((case map_of c k of None \<Rightarrow> 0 | Some v \<Rightarrow> theNumber v) + a)) c))
   = sum_list (map (\<lambda>p. theNumber (snd p)) c) + a"
  by (induction c) (auto simp: theNumber_def)

lemma running_total_bounds:
  assumes "\<forall>p\<in>set c. 0 \<le> theNumber (snd p)"
  shows "0 \<le> (case map_of c k of None \<Rightarrow> 0 | Some v \<Rightarrow> theNumber v)"
    and "(case map_of c k of None \<Rightarrow> 0 | Some v \<Rightarrow> theNumber v)
          \<le> sum_list (map (\<lambda>p. theNumber (snd p)) c)"
proof -
  have nonneg: "0 \<le> sum_list (map (\<lambda>p. theNumber (snd p)) c)"
    using assms by (intro sum_list_nonneg) auto
  show "0 \<le> (case map_of c k of None \<Rightarrow> 0 | Some v \<Rightarrow> theNumber v)"
  proof (cases "map_of c k")
    case None
    then show ?thesis by simp
  next
    case (Some v)
    then have "(k, v) \<in> set c" by (rule map_of_SomeD)
    with assms Some show ?thesis by fastforce
  qed
  show "(case map_of c k of None \<Rightarrow> 0 | Some v \<Rightarrow> theNumber v)
          \<le> sum_list (map (\<lambda>p. theNumber (snd p)) c)"
  proof (cases "map_of c k")
    case None
    with nonneg show ?thesis by simp
  next
    case (Some v)
    then have "(k, v) \<in> set c" by (rule map_of_SomeD)
    then have "theNumber v \<in> set (map (\<lambda>p. theNumber (snd p)) c)"
      by force
    moreover have "\<forall>x\<in>set (map (\<lambda>p. theNumber (snd p)) c). 0 \<le> x"
      using assms by auto
    ultimately have "theNumber v \<le> sum_list (map (\<lambda>p. theNumber (snd p)) c)"
      by (metis member_le_sum_list)
    with Some show ?thesis by simp
  qed
qed

lemma fold_accumulate_total:
  assumes "\<forall>e\<in>set es. category e \<notin> set inheritedNames"
    and "\<forall>e\<in>set es. 0 \<le> amount e"
    and "\<forall>p\<in>set c. \<exists>n. snd p = Number n"
    and "\<forall>p\<in>set c. 0 \<le> theNumber (snd p)"
    and "0 \<le> x"
    and "x + sum_list (map amount es) < 2 ^ 53"
    and "sum_list (map (\<lambda>p. theNumber (snd p)) c) + sum_list (map amount es) < 2 ^ 53"
  shows "fst (snd (fold accumulate es (i, x, c))) - x =
           sum_list (map (\<lambda>p. theNumber (snd p)) (snd (snd (fold accumulate es (i, x, c)))))
           - sum_list (map (\<lambda>p. theNumber (snd p)) c)"
  using assms
proof (induction es arbitrary: i x c)
  case Nil
  show ?case by simp
next
  case (Cons e es)
  have a: "0 \<le> amount e"
    using Cons.prems(2) by simp
  have rest: "0 \<le> sum_list (map amount es)"
    using Cons.prems(2) by (intro sum_list_nonneg) auto
  show ?case
  proof (cases "isIncome e")
    case True
    have "fst (snd (fold accumulate es (numAdd i (amount e), x, c))) - x =
           sum_list (map (\<lambda>p. theNumber (snd p)) (snd (snd (fold accumulate es (numAdd i (amount e), x, c)))))
           - sum_list (map (\<lambda>p. theNumber (snd p)) c)"
      using Cons.prems a by (intro Cons.IH) simp_all
    with True show ?thesis
      by (simp add: accumulate_income)
  next
    case False
    let ?t = "case map_of c (category e) of None \<Rightarrow> 0 | Some v \<Rightarrow> theNumber v"
    let ?T = "sum_list (map (\<lambda>p. theNumber (snd p)) c)"
    let ?c = "setProp (category e) (Number (?t + amount e)) c"
    have t: "0 \<le> ?t" "?t \<le> ?T"
      using Cons.prems(4) by (rule running_total_bounds)+
    have "\<bar>?t + amount e\<bar> < 2 ^ 53"
      using t a rest Cons.prems(7) by simp
    then have first: "numAdd ?t (amount e) = ?t + amount e"
      by (rule numAdd_exact)
    have "\<bar>x + amount e\<bar> < 2 ^ 53"
      using a rest Cons.prems(5,6) by simp
    then have second: "numAdd x (amount e) = x + amount e"
      by (rule numAdd_exact)
    have step: "accumulate e (i, x, c) = (i, x + amount e, ?c)"
      using accumulate_plain [of e c i x] False Cons.prems(1,3)
      by (simp add: first second)
    have total: "sum_list (map (\<lambda>p. theNumber (snd p)) ?c) = ?T + amount e"
      by (rule total_setProp)
    have members: "p = (category e, Number (?t + amount e)) \<or> p \<in> set c" if "p \<in> set ?c" for p
      using that by (rule set_setProp_cases)
    have "fst (snd (fold accumulate es (i, x + amount e, ?c))) - (x + amount e) =
           sum_list (map (\<lambda>p. theNumber (snd p)) (snd (snd (fold accumulate es (i, x + amount e, ?c)))))
           - sum_list (map (\<lambda>p. theNumber (snd p)) ?c)"
    proof (rule Cons.IH)
      show "\<forall>e\<in>set es. category e \<notin> set inheritedNames"
        using Cons.prems(1) by simp
      show "\<forall>e\<in>set es. 0 \<le> amount e"
        using Cons.prems(2) by simp
      show "\<forall>p\<in>set ?c. \<exists>n. snd p = Number n"
        using members Cons.prems(3) by fastforce
      show "\<forall>p\<in>set ?c. 0 \<le> theNumber (snd p)"
        using members Cons.prems(4) t a by (fastforce simp: theNumber_def)
      show "0 \<le> x + amount e"
        using a Cons.prems(5) by simp
      show "x + amount e + sum_list (map amount es) < 2 ^ 53"
        using Cons.prems(6) by simp
      show "sum_list (map (\<lambda>p. theNumber (snd p)) ?c) + sum_list (map amount es) < 2 ^ 53"
        using Cons.prems(7) by (simp add: total)
    qed
    then show ?thesis
      by (simp add: step total)
  qed
qed

lemma sum_list_filter_le:
  "\<forall>e\<in>set es. 0 \<le> amount e \<Longrightarrow>
     sum_list (map amount (filter P es)) \<le> sum_list (map amount es)"
  by (induction es) auto

lemma mset_filteredEntries:
  "mset (filteredEntries newDate currentMonth entries) =
     mset (filter (\<lambda>entry. newDate (getFullYear currentMonth) (getMonth currentMonth) 1 0 0 0 \<le> getTime (date entry)
        \<and> getTime (date entry) \<le> newDate (getFullYear currentMonth) (getMonth currentMonth + 1) 0 23 59 59) entries)"
  by (simp add: filteredEntries_def Let_def mset_arraySort)

lemma set_filteredEntries:
  "set (filteredEntries newDate currentMonth entries) \<subseteq> set entries"
  by (auto simp: filteredEntries_def Let_def set_arraySort)

lemma categoryExpenses_sum:
  assumes "\<forall>e\<in>set es. category e \<notin> set inheritedNames"
    and "\<forall>e\<in>set es. 0 \<le> amount e"
    and "sum_list (map amount es) < 2 ^ 53"
  shows "(\<forall>p\<in>set (categoryExpenses (summary es)). \<exists>n. snd p = Number n)
    \<and> sum_list (map (\<lambda>p. theNumber (snd p)) (categoryExpenses (summary es))) = totalExpense (summary es)"
proof
  let ?c = "snd (snd (fold accumulate es (0, 0, [])))"
  have m: "mset (arraySort byTotalDescending (objectEntries ?c)) = mset ?c"
    by (simp add: mset_arraySort mset_objectEntries)
  then have "set (categoryExpenses (summary es)) = set ?c"
    unfolding summary_fields by (metis set_mset_mset)
  moreover have "\<forall>p\<in>set ?c. \<exists>n. snd p = Number n"
    using assms(1) by (intro fold_accumulate_numbers) simp_all
  ultimately show "\<forall>p\<in>set (categoryExpenses (summary es)). \<exists>n. snd p = Number n"
    by simp
  have "sum_list (map (\<lambda>p. theNumber (snd p)) (categoryExpenses (summary es)))
      = sum_list (map (\<lambda>p. theNumber (snd p)) ?c)"
    unfolding summary_fields using m by (rule sum_list_mset_cong)
  also have "\<dots> = totalExpense (summary es)"
    using fold_accumulate_total [of es "[]" 0 0] assms
    by (simp add: summary_fields)
  finally show "sum_list (map (\<lambda>p. theNumber (snd p)) (categoryExpenses (summary es)))
      = totalExpense (summary es)" .
qed

lemma js_labels:
  "js ''Big'' = [66, 105, 103]"
  "js ''Small'' = [83, 109, 97, 108, 108]"
  "js ''Bus'' = [66, 117, 115]"
  "js ''Other'' = [79, 116, 104, 101, 114]"
  "js ''transfer'' = [116, 114, 97, 110, 115, 102, 101, 114]"
  "js ''constructor'' = [99, 111, 110, 115, 116, 114, 117, 99, 116, 111, 114]"
  "js ''__proto__'' = [95, 95, 112, 114, 111, 116, 111, 95, 95]"
  "js ''1'' = [49]"
  "js ''2'' = [50]"
  by (simp_all add: js_def)

text \<open>Where the sort leaves a short list of entries of one day as it is.\<close>

lemma filteredEntries_same_day:
  "filteredEntries utcDate day5March [hugeExpense, smallExpense, smallAgain] =
     [hugeExpense, smallExpense, smallAgain]"
  "filteredEntries utcDate day5March [labelledProto] = [labelledProto]"
  "filteredEntries utcDate day5March [labelledConstructor] = [labelledConstructor]"
  "filteredEntries utcDate day5March [labelledTwo, labelledOne] = [labelledTwo, labelledOne]"
  by (simp_all add: filteredEntries_def Let_def utcDate_2024 day5March_def arraySort_def
      sortCompare_def byDateDescending_def hugeExpense_def smallExpense_def smallAgain_def
      labelledProto_def labelledConstructor_def labelledTwo_def labelledOne_def)

lemma arrayIndex_words:
  "arrayIndex (js ''Food'') = None"
  "arrayIndex (js ''Salary'') = None"
  "arrayIndex (js ''Other'') = None"
  "arrayIndex (js ''Big'') = None"
  "arrayIndex (js ''Small'') = None"
  "arrayIndex (js ''Bus'') = None"
  "arrayIndex (js ''constructor'') = None"
  by (simp_all add: arrayIndex_def js_def isDigit_def)

lemma huge_and_small:
  "totalExpense (summarize utcDate day5March [hugeExpense, smallExpense, smallAgain]) = 9007199254740992"
  "categoryExpenses (summarize utcDate day5March [hugeExpense, smallExpense, smallAgain]) =
     [(js ''Big'', Number 9007199254740992), (js ''Small'', Number 2)]"
proof -
  have e: "\<not> isIncome hugeExpense" "\<not> isIncome smallExpense" "\<not> isIncome smallAgain"
    by (simp_all add: isIncome_def hugeExpense_def smallExpense_def smallAgain_def js_literals)
  show "totalExpense (summarize utcDate day5March [hugeExpense, smallExpense, smallAgain]) = 9007199254740992"
    unfolding summarize_def filteredEntries_same_day summary_totals amountOf_def
    by (simp add: e) (simp add: hugeExpense_def smallExpense_def smallAgain_def numAdd_values)
  have c: "snd (snd (fold accumulate [hugeExpense, smallExpense, smallAgain] (0, 0, []))) =
     [(js ''Big'', Number 9007199254740992), (js ''Small'', Number 2)]"
    by (simp add: accumulate_def hugeExpense_def smallExpense_def smallAgain_def js_literals
        js_labels inheritedNames_literals readProp_def writeProp_def orZero_def plusAmount_def
        numAdd_values numAdd_exact)
  show "categoryExpenses (summarize utcDate day5March [hugeExpense, smallExpense, smallAgain]) =
     [(js ''Big'', Number 9007199254740992), (js ''Small'', Number 2)]"
    unfolding summarize_def filteredEntries_same_day summary_fields c
    by (simp add: objectEntries_def arrayIndex_words arraySort_def sortCompare_def
        byTotalDescending_def numSub_exact)
qed

lemma proto_alone:
  "totalExpense (summarize utcDate day5March [labelledProto]) = 100"
  "categoryExpenses (summarize utcDate day5March [labelledProto]) = []"
  unfolding summarize_def filteredEntries_same_day summary_fields
  by (simp_all add: accumulate_def labelledProto_def js_literals js_labels inheritedNames_literals
      readProp_def writeProp_def orZero_def plusAmount_def numAdd_exact objectEntries_def
      arraySort_def)

lemma ledger_plain:
  "\<forall>e\<in>set ledger. category e \<notin> set inheritedNames"
  "\<forall>e\<in>set ledger. 0 \<le> amount e"
  "sum_list (map amount ledger) < 2 ^ 53"
  by (simp_all add: ledger_def foodInMarch_def salaryInMarch_def foodInFebruary_def js_literals
      inheritedNames_literals)

text \<open>
  C5, as the code has it: the totals of the category breakdown do not always add up to the
  total expense. After an expense of \<open>2\<^sup>5\<^sup>3\<close> two expenses of \<open>1\<close> leave the total
  expense where it is, while their own category reaches \<open>2\<close>; and an expense whose
  category is \<^verbatim>\<open>__proto__\<close> is counted in the total expense and gets no line in the
  breakdown.
\<close>

theorem categoryExpenses_add_up_counterexample:
  "totalExpense (summarize utcDate day5March [hugeExpense, smallExpense, smallAgain]) = 9007199254740992
   \<and> categoryExpenses (summarize utcDate day5March [hugeExpense, smallExpense, smallAgain]) =
       [(js ''Big'', Number 9007199254740992), (js ''Small'', Number 2)]
   \<and> totalExpense (summarize utcDate day5March [labelledProto]) = 100
   \<and> categoryExpenses (summarize utcDate day5March [labelledProto]) = []"
  by (simp only: huge_and_small proto_alone)

text \<open>
  C5, amended: for every collection of entries in which no category is the name of a
  member inherited from \<^verbatim>\<open>Object.prototype\<close>, no amount is negative and the amounts add
  up to less than \<open>2\<^sup>5\<^sup>3\<close>, and for every month, every total of the category breakdown is
  a number and the totals add up to the total expense of the summary.
\<close>

theorem categoryExpenses_add_up:
  assumes "\<forall>e\<in>set entries. category e \<notin> set inheritedNames"
    and "\<forall>e\<in>set entries. 0 \<le> amount e"
    and "sum_list (map amount entries) < 2 ^ 53"
  shows "(\<forall>p\<in>set (categoryExpenses (summarize newDate currentMonth entries)). \<exists>n. snd p = Number n)
    \<and> sum_list (map (\<lambda>p. theNumber (snd p)) (categoryExpenses (summarize newDate currentMonth entries)))
        = totalExpense (summarize newDate currentMonth entries)"
proof -
  let ?F = "filteredEntries newDate currentMonth entries"
  have sub: "set ?F \<subseteq> set entries"
    by (rule set_filteredEntries)
  have "sum_list (map amount ?F) \<le> sum_list (map amount entries)"
    using sum_list_mset_cong [OF mset_filteredEntries, of amount newDate currentMonth entries]
      sum_list_filter_le [OF assms(2)]
    by simp
  with assms(3) have "sum_list (map amount ?F) < 2 ^ 53"
    by simp
  moreover have "\<forall>e\<in>set ?F. category e \<notin> set inheritedNames"
    using sub assms(1) by blast
  moreover have "\<forall>e\<in>set ?F. 0 \<le> amount e"
    using sub assms(2) by blast
  ultimately show ?thesis
    unfolding summarize_def by (intro categoryExpenses_sum)
qed

theorem categoryExpenses_add_up_witness:
  "sum_list (map (\<lambda>p. theNumber (snd p)) (categoryExpenses (summarize utcDate day5March ledger))) = 15000"
  using categoryExpenses_add_up [OF ledger_plain, of utcDate day5March]
  by (simp add: ledger_in_march)

lemma map_of_setProp:
  "map_of (setProp k v obj) k' = (if k' = k then Some v else map_of obj k')"
  using getProp_setProp [of k v obj k'] by (simp add: getProp_def)

lemma fold_accumulate_map_of:
  assumes "\<forall>e\<in>set es. category e \<notin> set inheritedNames"
    and "\<forall>p\<in>set c. \<exists>n. snd p = Number n"
  shows "map_of (snd (snd (fold accumulate es (i, x, c)))) k =
     (if \<exists>e\<in>set es. \<not> isIncome e \<and> category e = k
      then Some (Number (amountFrom (case map_of c k of None \<Rightarrow> 0 | Some v \<Rightarrow> theNumber v)
                           (\<lambda>e. \<not> isIncome e \<and> category e = k) es))
      else map_of c k)"
  using assms
proof (induction es arbitrary: i x c)
  case Nil
  then show ?case by simp
next
  case (Cons e es)
  let ?P = "\<lambda>e. \<not> isIncome e \<and> category e = k"
  have plain: "\<forall>e\<in>set es. category e \<notin> set inheritedNames"
    using Cons.prems(1) by simp
  show ?case
  proof (cases "isIncome e")
    case True
    then have step: "fold accumulate (e # es) (i, x, c) = fold accumulate es (numAdd i (amount e), x, c)"
      by (simp add: accumulate_income)
    from True have "(\<exists>e'\<in>set (e # es). ?P e') = (\<exists>e'\<in>set es. ?P e')"
      by simp
    moreover from True have "amountFrom s ?P (e # es) = amountFrom s ?P es" for s
      by simp
    ultimately show ?thesis
      unfolding step using Cons.IH [OF plain Cons.prems(2), of "numAdd i (amount e)" x]
      by (simp only:)
  next
    case False
    let ?v = "Number (numAdd (case map_of c (category e) of None \<Rightarrow> 0 | Some v \<Rightarrow> theNumber v) (amount e))"
    let ?c = "setProp (category e) ?v c"
    have "accumulate e (i, x, c) = (i, numAdd x (amount e), ?c)"
      using False Cons.prems by (intro accumulate_plain) simp_all
    then have step: "fold accumulate (e # es) (i, x, c) = fold accumulate es (i, numAdd x (amount e), ?c)"
      by simp
    have numbers: "\<forall>p\<in>set ?c. \<exists>n. snd p = Number n"
    proof
      fix p
      assume "p \<in> set ?c"
      then have "p = (category e, ?v) \<or> p \<in> set c"
        by (rule set_setProp_cases)
      then show "\<exists>n. snd p = Number n"
        using Cons.prems(2) by auto
    qed
    note IH = Cons.IH [OF plain numbers, of i "numAdd x (amount e)"]
    show ?thesis
    proof (cases "category e = k")
      case True
      let ?s = "numAdd (case map_of c k of None \<Rightarrow> 0 | Some v \<Rightarrow> theNumber v) (amount e)"
      have here: "map_of ?c k = Some (Number ?s)"
        using True by (simp add: map_of_setProp)
      have ex: "\<exists>e'\<in>set (e # es). ?P e'"
        using True False by simp
      have sum: "amountFrom s ?P (e # es) = amountFrom (numAdd s (amount e)) ?P es" for s
        using True False by simp
      show ?thesis
      proof (cases "\<exists>e'\<in>set es. ?P e'")
        case True
        then show ?thesis
          unfolding step using IH ex
          by (simp only: here sum if_True) (simp add: theNumber_def)
      next
        case none: False
        then have "amountFrom s ?P es = s" for s
          by (intro amountFrom_none) blast
        with none show ?thesis
          unfolding step using IH ex
          by (simp only: here sum if_True if_False)
      qed
    next
      case other: False
      have here: "map_of ?c k = map_of c k"
        using other by (simp add: map_of_setProp)
      from other have "(\<exists>e'\<in>set (e # es). ?P e') = (\<exists>e'\<in>set es. ?P e')"
        by simp
      moreover from other have "amountFrom s ?P (e # es) = amountFrom s ?P es" for s
        by simp
      ultimately show ?thesis
        unfolding step using IH by (simp only: here)
    qed
  qed
qed

lemma map_of_permuted:
  assumes "distinct (map fst xs)" and "mset ys = mset xs"
  shows "map_of ys = map_of xs"
proof -
  have "mset (map fst ys) = mset (map fst xs)"
    using assms(2) by simp
  then have "distinct (map fst ys)"
    using assms(1) by (metis mset_eq_imp_distinct_iff)
  moreover have "set ys = set xs"
    using assms(2) by (metis set_mset_mset)
  ultimately show ?thesis
    using assms(1) by (simp add: map_of_inject_set)
qed

text \<open>
  The total of one category whose label is not the name of an inherited member, whatever
  the labels of the other entries are.
\<close>

lemma map_of_writeProp:
  "map_of (writeProp k v obj) k' =
     (if k' = k \<and> k \<noteq> js ''__proto__'' then Some v else map_of obj k')"
  by (simp add: writeProp_def map_of_setProp)

lemma fold_accumulate_at:
  assumes "k \<notin> set inheritedNames"
    and "\<forall>v. map_of c k = Some v \<longrightarrow> (\<exists>n. v = Number n)"
  shows "map_of (snd (snd (fold accumulate es (i, x, c)))) k =
     (if \<exists>e\<in>set es. \<not> isIncome e \<and> category e = k
      then Some (Number (amountFrom (case map_of c k of None \<Rightarrow> 0 | Some v \<Rightarrow> theNumber v)
                           (\<lambda>e. \<not> isIncome e \<and> category e = k) es))
      else map_of c k)"
  using assms(2)
proof (induction es arbitrary: i x c)
  case Nil
  then show ?case by simp
next
  case (Cons e es)
  let ?P = "\<lambda>e. \<not> isIncome e \<and> category e = k"
  have proto: "k \<noteq> js ''__proto__''"
    using assms(1) proto_inherited by blast
  show ?case
  proof (cases "?P e")
    case False
    obtain i' x' c' where step: "accumulate e (i, x, c) = (i', x', c')"
      by (cases "accumulate e (i, x, c)")
    have same: "map_of c' k = map_of c k"
    proof (cases "isIncome e")
      case True
      with step show ?thesis
        by (simp add: accumulate_income)
    next
      case expense: False
      with False have "category e \<noteq> k"
        by simp
      with step expense show ?thesis
        by (auto simp: accumulate_def isIncome_def map_of_writeProp)
    qed
    from False have "(\<exists>e'\<in>set (e # es). ?P e') = (\<exists>e'\<in>set es. ?P e')"
      by auto
    moreover from False have "amountFrom s ?P (e # es) = amountFrom s ?P es" for s
      by auto
    moreover have "fold accumulate (e # es) (i, x, c) = fold accumulate es (i', x', c')"
      by (simp add: step)
    moreover have "\<forall>v. map_of c' k = Some v \<longrightarrow> (\<exists>n. v = Number n)"
      using Cons.prems same by simp
    ultimately show ?thesis
      using Cons.IH [of c' i' x'] by (simp only: same)
  next
    case True
    let ?s = "numAdd (case map_of c k of None \<Rightarrow> 0 | Some v \<Rightarrow> theNumber v) (amount e)"
    let ?c = "setProp k (Number ?s) c"
    have "plusAmount (orZero (readProp c k)) (amount e) = Number ?s"
    proof (cases "map_of c k")
      case None
      then show ?thesis
        using assms(1) by (simp add: readProp_def orZero_def plusAmount_def)
    next
      case (Some v)
      with Cons.prems obtain n where "v = Number n"
        by blast
      with Some show ?thesis
        by (simp add: readProp_def orZero_def plusAmount_def theNumber_def)
    qed
    with True proto have "accumulate e (i, x, c) = (i, numAdd x (amount e), ?c)"
      by (simp add: accumulate_def isIncome_def writeProp_def)
    then have step: "fold accumulate (e # es) (i, x, c) = fold accumulate es (i, numAdd x (amount e), ?c)"
      by simp
    have here: "map_of ?c k = Some (Number ?s)"
      by (simp add: map_of_setProp)
    then have numbers: "\<forall>v. map_of ?c k = Some v \<longrightarrow> (\<exists>n. v = Number n)"
      by simp
    note IH = Cons.IH [OF numbers, of i "numAdd x (amount e)"]
    have ex: "\<exists>e'\<in>set (e # es). ?P e'"
      using True by simp
    have sum: "amountFrom s ?P (e # es) = amountFrom (numAdd s (amount e)) ?P es" for s
      using True by simp
    show ?thesis
    proof (cases "\<exists>e'\<in>set es. ?P e'")
      case True
      then show ?thesis
        unfolding step using IH ex
        by (simp only: here sum if_True) (simp add: theNumber_def)
    next
      case none: False
      then have "amountFrom s ?P es = s" for s
        by (intro amountFrom_none) blast
      with none show ?thesis
        unfolding step using IH ex
        by (simp only: here sum if_True if_False)
    qed
  qed
qed

lemma summary_category_at:
  assumes "k \<notin> set inheritedNames"
  shows "map_of (categoryExpenses (summary es)) k =
     (if \<exists>e\<in>set es. \<not> isIncome e \<and> category e = k
      then Some (Number (amountOf (\<lambda>e. \<not> isIncome e \<and> category e = k) es)) else None)"
proof -
  let ?c = "snd (snd (fold accumulate es (0, 0, [])))"
  have "distinct (map fst ?c)"
    by (rule fold_accumulate_keys_distinct) simp
  moreover have "mset (categoryExpenses (summary es)) = mset ?c"
    by (simp add: summary_fields mset_arraySort mset_objectEntries)
  ultimately have "map_of (categoryExpenses (summary es)) = map_of ?c"
    by (rule map_of_permuted)
  then show ?thesis
    using fold_accumulate_at [OF assms, of "[]" es 0 0]
    by (simp add: amountOf_def)
qed

section \<open>The trend loop\<close>

lemma setProp_present:
  assumes "distinct (map fst obj)" and "k \<in> set (map fst obj)"
  shows "setProp k v obj = map (\<lambda>kb. (fst kb, if fst kb = k then v else snd kb)) obj"
  using assms
proof (induction obj)
  case Nil
  then show ?case by simp
next
  case (Cons p obj)
  show ?case
  proof (cases "fst p = k")
    case True
    from Cons.prems True have notin: "k \<notin> set (map fst obj)"
      by simp
    have "fst q \<noteq> k" if "q \<in> set obj" for q
    proof
      assume "fst q = k"
      with that have "k \<in> set (map fst obj)" by force
      with notin show False ..
    qed
    then have "map (\<lambda>kb. (fst kb, if fst kb = k then v else snd kb)) obj = obj"
      by (intro map_idI) simp
    with True show ?thesis
      by (cases p) simp
  next
    case False
    with Cons show ?thesis
      by (cases p) auto
  qed
qed

lemma getProp_present:
  "distinct (map fst obj) \<Longrightarrow> (k, b) \<in> set obj \<Longrightarrow> getProp obj k = Some b"
  by (simp add: getProp_def)

lemma getProp_absent: "getProp obj k = None \<Longrightarrow> k \<notin> set (map fst obj)"
  by (simp add: getProp_def map_of_eq_None_iff)

lemma addToMonth_map:
  assumes "distinct (map fst obj)"
  shows "addToMonth e obj = map (\<lambda>kb. (fst kb, bump e (fst kb) (snd kb))) obj"
proof (cases "getProp obj (entryMonthKey e)")
  case None
  have "fst kb \<noteq> entryMonthKey e" if "kb \<in> set obj" for kb
  proof
    assume "fst kb = entryMonthKey e"
    with that have "entryMonthKey e \<in> set (map fst obj)" by force
    with getProp_absent [OF None] show False ..
  qed
  then have "bump e (fst kb) (snd kb) = snd kb" if "kb \<in> set obj" for kb
    using that by (simp add: bump_def)
  then have "map (\<lambda>kb. (fst kb, bump e (fst kb) (snd kb))) obj = obj"
    by (intro map_idI) simp
  moreover have "addToMonth e obj = obj"
    unfolding addToMonth_def Let_def entryMonthKey_def [symmetric] by (simp only: None option.case)
  ultimately show ?thesis by simp
next
  case (Some b)
  let ?k = "entryMonthKey e"
  from Some have "(?k, b) \<in> set obj"
    by (simp add: getProp_def map_of_SomeD)
  then have mem: "?k \<in> set (map fst obj)"
    by force
  have val: "snd kb = b" if "kb \<in> set obj" "fst kb = ?k" for kb
  proof -
    from that(1) have "(fst kb, snd kb) \<in> set obj" by simp
    with assms have "getProp obj (fst kb) = Some (snd kb)"
      by (rule getProp_present)
    with Some that(2) show ?thesis by simp
  qed
  have "addToMonth e obj = setProp ?k (bump e ?k b) obj"
    unfolding addToMonth_def Let_def entryMonthKey_def [symmetric]
    by (simp only: Some option.case bump_def isIncome_def if_True refl split: if_splits) simp
  also have "\<dots> = map (\<lambda>kb. (fst kb, if fst kb = ?k then bump e ?k b else snd kb)) obj"
    by (rule setProp_present [OF assms mem])
  also have "\<dots> = map (\<lambda>kb. (fst kb, bump e (fst kb) (snd kb))) obj"
  proof (rule map_cong [OF refl])
    fix kb assume kb: "kb \<in> set obj"
    show "(fst kb, if fst kb = ?k then bump e ?k b else snd kb) = (fst kb, bump e (fst kb) (snd kb))"
    proof (cases "fst kb = ?k")
      case True
      with val [OF kb True] show ?thesis by simp
    next
      case False
      then show ?thesis by (simp add: bump_def)
    qed
  qed
  finally show ?thesis .
qed

lemma settle_Nil: "settle [] k b = b"
  by (simp add: settle_def)

lemma settle_Cons: "settle (e # es) k b = settle es k (bump e k b)"
  by (simp add: settle_def bump_def)

lemma fold_addToMonth_map:
  "distinct (map fst obj) \<Longrightarrow>
   fold addToMonth es obj = map (\<lambda>kb. (fst kb, settle es (fst kb) (snd kb))) obj"
proof (induction es arbitrary: obj)
  case Nil
  show ?case by (simp add: settle_Nil)
next
  case (Cons e es)
  let ?obj = "map (\<lambda>kb. (fst kb, bump e (fst kb) (snd kb))) obj"
  have keys: "map fst ?obj = map fst obj"
    by (simp add: comp_def)
  have "fold addToMonth (e # es) obj = fold addToMonth es ?obj"
    by (simp add: addToMonth_map [OF Cons.prems])
  also have "\<dots> = map (\<lambda>kb. (fst kb, settle es (fst kb) (snd kb))) ?obj"
    by (rule Cons.IH) (simp only: keys Cons.prems)
  also have "\<dots> = map (\<lambda>kb. (fst kb, settle (e # es) (fst kb) (snd kb))) obj"
    by (simp add: comp_def settle_Cons)
  finally show ?case .
qed

lemma set_setProp: "set (setProp k v obj) \<subseteq> insert (k, v) (set obj)"
  by (induction obj) (auto split: if_splits)

lemma initialMonthlyData_fold:
  "initialMonthlyData today =
     fold (\<lambda>i. setProp
              (monthKey (fst (firstOfMonth (getFullYear today) (getMonth today - int i)))
                        (snd (firstOfMonth (getFullYear today) (getMonth today - int i))))
              \<lparr>income = 0, expense = 0,
               month = monthLabel (snd (firstOfMonth (getFullYear today) (getMonth today - int i)))\<rparr>)
          [0..<6] []"
  by (simp add: initialMonthlyData_def case_prod_beta)

lemma fold_setProp_distinct:
  "distinct (map fst obj) \<Longrightarrow> distinct (map fst (fold (\<lambda>i. setProp (f i) (g i)) is obj))"
  by (induction "is" arbitrary: obj) (simp_all add: distinct_setProp)

lemma fold_setProp_values:
  "(\<forall>kb\<in>set obj. P (snd kb)) \<Longrightarrow> (\<forall>i. P (g i)) \<Longrightarrow>
   \<forall>kb\<in>set (fold (\<lambda>i. setProp (f i) (g i)) is obj). P (snd kb)"
proof (induction "is" arbitrary: obj)
  case Nil
  then show ?case by simp
next
  case (Cons i "is")
  have "\<forall>kb\<in>set (setProp (f i) (g i) obj). P (snd kb)"
    using Cons.prems set_setProp [of "f i" "g i" obj] by auto
  then show ?case
    using Cons.IH Cons.prems(2) by simp
qed

lemma initialMonthlyData_distinct: "distinct (map fst (initialMonthlyData today))"
  unfolding initialMonthlyData_fold by (rule fold_setProp_distinct) simp

lemma initialMonthlyData_zero:
  "\<forall>kb\<in>set (initialMonthlyData today). income (snd kb) = 0 \<and> expense (snd kb) = 0"
  unfolding initialMonthlyData_fold by (rule fold_setProp_values) simp_all

lemma mset_objectValues: "mset (objectValues obj) = mset (map snd obj)"
  unfolding objectValues_def using mset_objectEntries [of obj] by (metis mset_map)

lemma trendData_mset:
  "mset (trendData today es) =
     mset (map (\<lambda>kb. (snd kb)
                 \<lparr>income := amountOf (\<lambda>e. isIncome e \<and> entryMonthKey e = fst kb) es,
                  expense := amountOf (\<lambda>e. \<not> isIncome e \<and> entryMonthKey e = fst kb) es\<rparr>)
            (initialMonthlyData today))"
proof -
  have "mset (trendData today es) = mset (map snd (fold addToMonth es (initialMonthlyData today)))"
    by (simp only: trendData_def mset_arraySort mset_objectValues)
  also have "\<dots> = mset (map (\<lambda>kb. settle es (fst kb) (snd kb)) (initialMonthlyData today))"
    by (simp add: fold_addToMonth_map [OF initialMonthlyData_distinct] comp_def)
  also have "map (\<lambda>kb. settle es (fst kb) (snd kb)) (initialMonthlyData today) =
      map (\<lambda>kb. (snd kb)
                 \<lparr>income := amountOf (\<lambda>e. isIncome e \<and> entryMonthKey e = fst kb) es,
                  expense := amountOf (\<lambda>e. \<not> isIncome e \<and> entryMonthKey e = fst kb) es\<rparr>)
            (initialMonthlyData today)"
    by (rule map_cong) (use initialMonthlyData_zero in \<open>simp_all add: settle_def amountOf_def\<close>)
  finally show ?thesis .
qed

text \<open>A month key is the name of no inherited member and no array index.\<close>

lemma monthKey_hyphen: "45 \<in> set (monthKey y m)"
  by (simp add: monthKey_def js_def)

lemma monthKey_not_inherited: "monthKey y m \<notin> set inheritedNames"
proof
  assume "monthKey y m \<in> set inheritedNames"
  moreover have "\<forall>k\<in>set inheritedNames. 45 \<notin> set k"
    by (simp add: inheritedNames_literals)
  ultimately have "45 \<notin> set (monthKey y m)"
    by blast
  with monthKey_hyphen show False
    by blast
qed

lemma readProp_monthKey:
  "readProp obj (monthKey y m) =
     (case getProp obj (monthKey y m) of None \<Rightarrow> Undefined | Some b \<Rightarrow> Own b)"
  by (simp add: readProp_def getProp_def monthKey_not_inherited split: option.splits)

lemma writeProp_monthKey: "writeProp (monthKey y m) v obj = setProp (monthKey y m) v obj"
  using monthKey_not_inherited [of y m] proto_inherited by (auto simp: writeProp_def)

section \<open>The order of the category breakdown\<close>

lemma fold_accumulate_keys:
  assumes "\<forall>e\<in>set es. category e \<notin> set inheritedNames"
    and "\<forall>p\<in>set c. \<exists>n. snd p = Number n"
  shows "map fst (snd (snd (fold accumulate es (i, x, c)))) =
     map fst c @ filter (\<lambda>k. k \<notin> set (map fst c))
                   (firstSeen (map category (filter (\<lambda>e. \<not> isIncome e) es)))"
  using assms
proof (induction es arbitrary: i x c)
  case Nil
  show ?case by simp
next
  case (Cons e es)
  let ?fs = "firstSeen (map category (filter (\<lambda>e. \<not> isIncome e) es))"
  have plain: "\<forall>e\<in>set es. category e \<notin> set inheritedNames"
    using Cons.prems(1) by simp
  show ?case
  proof (cases "isIncome e")
    case True
    then have "fold accumulate (e # es) (i, x, c) = fold accumulate es (numAdd i (amount e), x, c)"
      by (simp add: accumulate_income)
    with True Cons.IH [OF plain Cons.prems(2), of "numAdd i (amount e)" x] show ?thesis by simp
  next
    case False
    let ?k = "category e"
    let ?v = "Number (numAdd (case map_of c ?k of None \<Rightarrow> 0 | Some v \<Rightarrow> theNumber v) (amount e))"
    let ?c = "setProp ?k ?v c"
    have "accumulate e (i, x, c) = (i, numAdd x (amount e), ?c)"
      using False Cons.prems by (intro accumulate_plain) simp_all
    then have step: "fold accumulate (e # es) (i, x, c) = fold accumulate es (i, numAdd x (amount e), ?c)"
      by simp
    have numbers: "\<forall>p\<in>set ?c. \<exists>n. snd p = Number n"
    proof
      fix p
      assume "p \<in> set ?c"
      then have "p = (?k, ?v) \<or> p \<in> set c"
        by (rule set_setProp_cases)
      then show "\<exists>n. snd p = Number n"
        using Cons.prems(2) by auto
    qed
    have ih: "map fst (snd (snd (fold accumulate (e # es) (i, x, c)))) =
        map fst ?c @ filter (\<lambda>k. k \<notin> set (map fst ?c)) ?fs"
      unfolding step by (rule Cons.IH [OF plain numbers])
    have fs: "firstSeen (map category (filter (\<lambda>e. \<not> isIncome e) (e # es))) =
        ?k # filter (\<lambda>k. k \<noteq> ?k) ?fs"
      using False by simp
    show ?thesis
    proof (cases "?k \<in> set (map fst c)")
      case True
      then have keys: "map fst ?c = map fst c"
        by (simp only: keys_setProp if_True)
      have "filter (\<lambda>k. k \<notin> set (map fst c)) (filter (\<lambda>k. k \<noteq> ?k) ?fs) =
          filter (\<lambda>k. k \<notin> set (map fst c)) ?fs"
        unfolding filter_filter by (rule filter_cong [OF refl]) (use True in blast)
      with True show ?thesis
        unfolding ih fs keys by simp
    next
      case new: False
      then have keys: "map fst ?c = map fst c @ [?k]"
        by (simp only: keys_setProp if_False)
      have "filter (\<lambda>k. k \<notin> set (map fst c @ [?k])) ?fs =
          filter (\<lambda>k. k \<notin> set (map fst c)) (filter (\<lambda>k. k \<noteq> ?k) ?fs)"
        unfolding filter_filter by (rule filter_cong [OF refl]) auto
      with new show ?thesis
        unfolding ih fs keys by simp
    qed
  qed
qed

lemma fold_accumulate_values:
  assumes "\<forall>e\<in>set es. category e \<notin> set inheritedNames"
    and "p \<in> set (snd (snd (fold accumulate es (0, 0, []))))"
  shows "snd p = Number (amountOf (\<lambda>e. \<not> isIncome e \<and> category e = fst p) es)"
proof -
  let ?c = "snd (snd (fold accumulate es (0, 0, [])))"
  have "distinct (map fst ?c)"
    by (rule fold_accumulate_keys_distinct) simp
  moreover from assms(2) have "(fst p, snd p) \<in> set ?c"
    by simp
  ultimately have "map_of ?c (fst p) = Some (snd p)"
    by simp
  then show ?thesis
    using fold_accumulate_map_of [OF assms(1), of "[]" 0 0 "fst p"]
    by (simp add: amountOf_def split: if_splits)
qed

lemma categoryExpenses_plain:
  assumes "\<forall>e\<in>set es. arrayIndex (category e) = None"
    and "\<forall>e\<in>set es. category e \<notin> set inheritedNames"
  shows "categoryExpenses (summary es) =
     sort_key (\<lambda>p. - theNumber (snd p)) (snd (snd (fold accumulate es (0, 0, []))))"
proof -
  let ?c = "snd (snd (fold accumulate es (0, 0, [])))"
  have keys: "map fst ?c = firstSeen (map category (filter (\<lambda>e. \<not> isIncome e) es))"
    using fold_accumulate_keys [OF assms(2), of "[]" 0 0] by simp
  have "set (map fst ?c) \<subseteq> category ` set es"
  proof -
    have "set (firstSeen xs) \<subseteq> set xs" for xs :: "jsstring list"
      by (induction xs) auto
    then have "set (firstSeen (map category (filter (\<lambda>e. \<not> isIncome e) es))) \<subseteq> category ` set es"
      by fastforce
    then show ?thesis
      unfolding keys .
  qed
  with assms(1) have "\<forall>k\<in>set (map fst ?c). arrayIndex k = None"
    by (auto simp: subset_iff image_iff)
  then have "objectEntries ?c = ?c"
    by (rule objectEntries_plain)
  moreover have "\<forall>p\<in>set ?c. \<exists>n. snd p = Number n"
    using assms(2) by (intro fold_accumulate_numbers) simp_all
  ultimately show ?thesis
    by (simp add: summary_fields arraySort_byTotalDescending)
qed

lemma arrayIndex_numerals:
  "arrayIndex [49] = Some 1" "arrayIndex [50] = Some 2"
  by (simp_all add: arrayIndex_def isDigit_def digitsValue_def)

text \<open>
  The language's rule for array indices at work: a key that is a numeral is listed before
  the keys created ahead of it.
\<close>

lemma objectEntries_index_first:
  "objectEntries [(js ''Food'', 7 :: int), (js ''2'', 5), (js ''1'', 5)] =
     [(js ''1'', 5), (js ''2'', 5), (js ''Food'', 7)]"
  by (simp add: objectEntries_def js_labels arrayIndex_numerals arrayIndex_words indexOrder_def)

lemma labelled_numerals:
  "categoryExpenses (summarize utcDate day5March [labelledTwo, labelledOne]) =
     [(js ''1'', Number 5000), (js ''2'', Number 5000)]"
  "firstSeen (map category (filter (\<lambda>e. \<not> isIncome e)
     (filteredEntries utcDate day5March [labelledTwo, labelledOne]))) = [js ''2'', js ''1'']"
  unfolding summarize_def filteredEntries_same_day summary_fields
  by (simp_all add: accumulate_def labelledTwo_def labelledOne_def js_literals js_labels
      isIncome_def inheritedNames_literals readProp_def writeProp_def orZero_def plusAmount_def
      numAdd_exact numSub_exact objectEntries_def arrayIndex_numerals indexOrder_def
      arraySort_def sortCompare_def byTotalDescending_def)

lemma constructor_alone:
  "categoryExpenses (summarize utcDate day5March [labelledConstructor]) = [(js ''constructor'', Text)]"
proof -
  have "snd (snd (fold accumulate [labelledConstructor] (0, 0, []))) = [(js ''constructor'', Text)]"
    by (simp add: accumulate_def labelledConstructor_def js_literals js_labels
      inheritedNames_literals readProp_def writeProp_def orZero_def plusAmount_def)
  then show ?thesis
    unfolding summarize_def filteredEntries_same_day summary_fields
    by (simp add: objectEntries_def arrayIndex_words arraySort_def)
qed

lemma filteredEntries_tied:
  "filteredEntries utcDate day5March tiedLedger = [busInMarch, salaryInMarch, foodInMarch]"
  by (simp add: filteredEntries_def Let_def utcDate_2024 tiedLedger_def foodInMarch_def
      busInMarch_def salaryInMarch_def day5March_def day10March_def
      arraySort_def sortCompare_def byDateDescending_def)

lemma tiedLedger_plain:
  "\<forall>e\<in>set tiedLedger. arrayIndex (category e) = None \<and> category e \<notin> set inheritedNames"
proof -
  have "\<forall>e\<in>set tiedLedger. arrayIndex (category e) = None"
    by (simp add: tiedLedger_def foodInMarch_def busInMarch_def salaryInMarch_def arrayIndex_words)
  moreover have "\<forall>e\<in>set tiedLedger. category e \<notin> set inheritedNames"
    by (simp add: tiedLedger_def foodInMarch_def busInMarch_def salaryInMarch_def js_literals
        js_labels inheritedNames_literals)
  ultimately show ?thesis by blast
qed

text \<open>
  C6, as the code has it: the order of first encounter does not always decide a tie, and a
  total is not always a number. With two expenses of 5000 under the labels \<^verbatim>\<open>2\<close> and
  \<^verbatim>\<open>1\<close>, met in this order, the breakdown lists \<^verbatim>\<open>1\<close> first, because the language
  lists keys that are array indices in ascending order. With an expense under the label
  \<^verbatim>\<open>constructor\<close> the breakdown holds a string where the total should be, because the
  amount is added to the inherited member of that name.
\<close>

theorem categoryExpenses_order_counterexample:
  "categoryExpenses (summarize utcDate day5March [labelledTwo, labelledOne]) =
     [(js ''1'', Number 5000), (js ''2'', Number 5000)]
   \<and> firstSeen (map category (filter (\<lambda>e. \<not> isIncome e)
       (filteredEntries utcDate day5March [labelledTwo, labelledOne]))) = [js ''2'', js ''1'']
   \<and> categoryExpenses (summarize utcDate day5March [labelledConstructor]) =
       [(js ''constructor'', Text)]"
  by (simp only: labelled_numerals constructor_alone)

text \<open>
  C6, amended: for every collection of entries in which no category is an array index or
  the name of a member inherited from \<^verbatim>\<open>Object.prototype\<close>, and for every month, the
  totals of the breakdown are numbers, the breakdown is sorted by total descending, and
  for every total the categories that carry it stand in the order in which the categories
  are first met among the expense entries of the month as \<open>filteredEntries\<close> lists
  them (latest date first).
\<close>

theorem categoryExpenses_order:
  assumes "\<forall>e\<in>set entries. arrayIndex (category e) = None \<and> category e \<notin> set inheritedNames"
  shows "(\<forall>p\<in>set (categoryExpenses (summarize newDate currentMonth entries)). \<exists>n. snd p = Number n)
    \<and> sorted_wrt (\<lambda>p q. theNumber (snd q) \<le> theNumber (snd p))
        (categoryExpenses (summarize newDate currentMonth entries))
    \<and> (\<forall>t. map fst (filter (\<lambda>p. snd p = Number t)
                (categoryExpenses (summarize newDate currentMonth entries))) =
           filter (\<lambda>c. amountOf (\<lambda>e. \<not> isIncome e \<and> category e = c)
                          (filteredEntries newDate currentMonth entries) = t)
             (firstSeen (map category (filter (\<lambda>e. \<not> isIncome e)
                (filteredEntries newDate currentMonth entries)))))"
proof -
  let ?es = "filteredEntries newDate currentMonth entries"
  let ?c = "snd (snd (fold accumulate ?es (0, 0, [])))"
  let ?key = "\<lambda>p :: jsstring \<times> jsvalue. - theNumber (snd p)"
  let ?total = "\<lambda>c. amountOf (\<lambda>e. \<not> isIncome e \<and> category e = c) ?es"
  have sub: "set ?es \<subseteq> set entries"
    by (rule set_filteredEntries)
  have noIndex: "\<forall>e\<in>set ?es. arrayIndex (category e) = None"
    using assms sub by blast
  have plain: "\<forall>e\<in>set ?es. category e \<notin> set inheritedNames"
    using assms sub by blast
  have sorted_key: "categoryExpenses (summarize newDate currentMonth entries) = sort_key ?key ?c"
    unfolding summarize_def by (rule categoryExpenses_plain [OF noIndex plain])
  have vals: "snd p = Number (?total (fst p))" if "p \<in> set ?c" for p
    using plain that by (rule fold_accumulate_values)
  have numbers: "\<forall>p\<in>set (sort_key ?key ?c). \<exists>n. snd p = Number n"
    using vals by auto
  have "sorted (map ?key (sort_key ?key ?c))"
    by (rule sorted_sort_key)
  then have first: "sorted_wrt (\<lambda>p q. theNumber (snd q) \<le> theNumber (snd p)) (sort_key ?key ?c)"
    by (simp add: sorted_map)
  have second: "map fst (filter (\<lambda>p. snd p = Number t) (sort_key ?key ?c)) =
      filter (\<lambda>c. ?total c = t)
        (firstSeen (map category (filter (\<lambda>e. \<not> isIncome e) ?es)))" for t
  proof -
    have "filter (\<lambda>p. snd p = Number t) (sort_key ?key ?c) =
        filter (\<lambda>p. ?key p = - t) (sort_key ?key ?c)"
      by (rule filter_cong [OF refl]) (use vals in \<open>auto simp: theNumber_def\<close>)
    also have "\<dots> = filter (\<lambda>p. ?key p = - t) ?c"
      by (rule sort_key_stable)
    also have "\<dots> = filter (\<lambda>p. ?total (fst p) = t) ?c"
      by (rule filter_cong [OF refl]) (use vals in \<open>auto simp: theNumber_def\<close>)
    finally have "map fst (filter (\<lambda>p. snd p = Number t) (sort_key ?key ?c)) =
        filter (\<lambda>c. ?total c = t) (map fst ?c)"
      by (simp add: filter_map comp_def)
    moreover have "map fst ?c = firstSeen (map category (filter (\<lambda>e. \<not> isIncome e) ?es))"
      using fold_accumulate_keys [OF plain, of "[]" 0 0] by simp
    ultimately show ?thesis by simp
  qed
  show ?thesis
    unfolding sorted_key using numbers first second by blast
qed

text \<open>
  The food of 5 March stands first in the collection and the bus pass of 10 March second;
  both categories total 15000. The month lists the bus pass first, and so does the
  breakdown.
\<close>

theorem categoryExpenses_order_witness:
  "map fst (filter (\<lambda>p. snd p = Number 15000)
     (categoryExpenses (summarize utcDate day5March tiedLedger))) = [js ''Bus'', js ''Food'']
   \<and> map category (filter (\<lambda>e. \<not> isIncome e) tiedLedger) = [js ''Food'', js ''Bus'']"
proof
  have e: "\<not> isIncome busInMarch" "isIncome salaryInMarch" "\<not> isIncome foodInMarch"
    "category busInMarch = js ''Bus''" "category foodInMarch = js ''Food''"
    "amount busInMarch = 15000" "amount foodInMarch = 15000"
    by (simp_all add: isIncome_def busInMarch_def salaryInMarch_def foodInMarch_def js_literals)
  have ne: "js ''Bus'' \<noteq> js ''Food''" "js ''Food'' \<noteq> js ''Bus''"
    by (simp_all add: js_literals js_labels)
  from categoryExpenses_order [OF tiedLedger_plain, of utcDate day5March]
  show "map fst (filter (\<lambda>p. snd p = Number 15000)
     (categoryExpenses (summarize utcDate day5March tiedLedger))) = [js ''Bus'', js ''Food'']"
    by (simp add: filteredEntries_tied amountOf_def e ne numAdd_exact)
  show "map category (filter (\<lambda>e. \<not> isIncome e) tiedLedger) = [js ''Food'', js ''Bus'']"
    by (simp add: tiedLedger_def e)
qed

section \<open>The query of HistoryTab\<close>

lemma filteredAndSortedEntries_sort_key:
  "filteredAndSortedEntries f entries =
     sort_key (\<lambda>e. - getTime (date e)) (filter (passesFilter f) entries)"
  by (simp add: filteredAndSortedEntries_def arraySort_byDateDescending)

lemma passesFilter_iff:
  "passesFilter f e =
     ((filterMonth f \<noteq> js ''all'' \<longrightarrow> isoMonth (date e) = filterMonth f)
      \<and> (filterType f \<noteq> js ''all'' \<longrightarrow> etype e = filterType f)
      \<and> (filterCategory f \<noteq> js ''all'' \<longrightarrow> category e = filterCategory f)
      \<and> (filterPaymentMethod f \<noteq> js ''all'' \<longrightarrow> paymentMethod e = Some (filterPaymentMethod f)))"
  by (auto simp: passesFilter_def Let_def)

lemma js_filter_literals:
  "js ''2024-03'' = [50, 48, 50, 52, 45, 48, 51]"
  "js ''2024-02'' = [50, 48, 50, 52, 45, 48, 50]"
  "js ''Card'' = [67, 97, 114, 100]"
  "js ''Cash'' = [67, 97, 115, 104]"
  "js ''Rent'' = [82, 101, 110, 116]"
  by (simp_all add: js_def)

lemmas all_literals = js_literals js_labels js_filter_literals

lemma passesFilter_cardInMarch:
  "passesFilter cardInMarch foodInMarch" "\<not> passesFilter cardInMarch salaryInMarch"
  "\<not> passesFilter cardInMarch foodInFebruary"
  by (simp_all add: passesFilter_def Let_def cardInMarch_def ledger_defs all_literals)

lemma passesFilter_everything: "passesFilter everything e"
  by (simp add: passesFilter_def everything_def)

lemma passesFilter_rentOnly:
  "\<not> passesFilter rentOnly foodInMarch" "\<not> passesFilter rentOnly salaryInMarch"
  "\<not> passesFilter rentOnly foodInFebruary"
  by (simp_all add: passesFilter_def Let_def rentOnly_def ledger_defs all_literals)

text \<open>
  C3: the result of the query holds exactly the entries of the collection, each as often
  as the collection has it, that meet every filter field other than \<^verbatim>\<open>'all'\<close>; the
  fields are joined by conjunction and a field that is \<^verbatim>\<open>'all'\<close> constrains nothing.
  An entry without a payment method, as every income entry is, is in no result of a
  filter that names a payment method.
\<close>

theorem query_selects:
  "mset (filteredAndSortedEntries f entries) =
     filter_mset
       (\<lambda>e. (filterMonth f \<noteq> js ''all'' \<longrightarrow> isoMonth (date e) = filterMonth f)
          \<and> (filterType f \<noteq> js ''all'' \<longrightarrow> etype e = filterType f)
          \<and> (filterCategory f \<noteq> js ''all'' \<longrightarrow> category e = filterCategory f)
          \<and> (filterPaymentMethod f \<noteq> js ''all'' \<longrightarrow>
                paymentMethod e = Some (filterPaymentMethod f)))
       (mset entries)
   \<and> (\<forall>e. paymentMethod e = None \<and> filterPaymentMethod f \<noteq> js ''all'' \<longrightarrow>
          e \<notin> set (filteredAndSortedEntries f entries))"
proof
  show "mset (filteredAndSortedEntries f entries) =
     filter_mset
       (\<lambda>e. (filterMonth f \<noteq> js ''all'' \<longrightarrow> isoMonth (date e) = filterMonth f)
          \<and> (filterType f \<noteq> js ''all'' \<longrightarrow> etype e = filterType f)
          \<and> (filterCategory f \<noteq> js ''all'' \<longrightarrow> category e = filterCategory f)
          \<and> (filterPaymentMethod f \<noteq> js ''all'' \<longrightarrow>
                paymentMethod e = Some (filterPaymentMethod f)))
       (mset entries)"
    by (simp add: filteredAndSortedEntries_def mset_arraySort passesFilter_iff [abs_def])
  show "\<forall>e. paymentMethod e = None \<and> filterPaymentMethod f \<noteq> js ''all'' \<longrightarrow>
          e \<notin> set (filteredAndSortedEntries f entries)"
    by (simp add: filteredAndSortedEntries_def set_arraySort passesFilter_iff)
qed

theorem query_selects_witness:
  "mset (filteredAndSortedEntries cardInMarch ledger) = {#foodInMarch#}
   \<and> salaryInMarch \<notin> set (filteredAndSortedEntries cardInMarch ledger)"
proof -
  have month: "filterMonth cardInMarch \<noteq> js ''all''" "filterMonth cardInMarch = js ''2024-03''"
    and pm: "filterPaymentMethod cardInMarch \<noteq> js ''all''"
      "filterPaymentMethod cardInMarch = js ''Card''"
    and others: "filterType cardInMarch = js ''all''" "filterCategory cardInMarch = js ''all''"
    by (simp_all add: cardInMarch_def all_literals)
  have fields: "isoMonth (date foodInMarch) = js ''2024-03''"
    "paymentMethod foodInMarch = Some (js ''Card'')"
    "paymentMethod salaryInMarch = None"
    "isoMonth (date foodInFebruary) = js ''2024-02''"
    by (simp_all add: ledger_defs all_literals)
  note q = query_selects [of cardInMarch ledger]
  from q have "mset (filteredAndSortedEntries cardInMarch ledger) = {#foodInMarch#}"
    by (simp add: month pm others fields ledger_def all_literals)
  moreover from q have "salaryInMarch \<notin> set (filteredAndSortedEntries cardInMarch ledger)"
    using fields(3) pm(1) by blast
  ultimately show ?thesis ..
qed

text \<open>
  C7: the result of the query is in descending order of date, and the entries of one
  date stand in the order the collection has them.
\<close>

theorem query_order:
  "sorted_wrt (\<lambda>a b. getTime (date b) \<le> getTime (date a)) (filteredAndSortedEntries f entries)
   \<and> (\<forall>t. filter (\<lambda>e. getTime (date e) = t) (filteredAndSortedEntries f entries) =
          filter (\<lambda>e. getTime (date e) = t) (filter (passesFilter f) entries))"
proof
  have "sorted (map (\<lambda>e. - getTime (date e)) (filteredAndSortedEntries f entries))"
    unfolding filteredAndSortedEntries_sort_key by (rule sorted_sort_key)
  then show "sorted_wrt (\<lambda>a b. getTime (date b) \<le> getTime (date a))
      (filteredAndSortedEntries f entries)"
    by (simp add: sorted_map)
  show "\<forall>t. filter (\<lambda>e. getTime (date e) = t) (filteredAndSortedEntries f entries) =
          filter (\<lambda>e. getTime (date e) = t) (filter (passesFilter f) entries)"
  proof
    fix t
    have eq: "(\<lambda>e. getTime (date e) = t) = (\<lambda>e. - getTime (date e) = - t)"
      by (simp add: fun_eq_iff)
    show "filter (\<lambda>e. getTime (date e) = t) (filteredAndSortedEntries f entries) =
          filter (\<lambda>e. getTime (date e) = t) (filter (passesFilter f) entries)"
      unfolding filteredAndSortedEntries_sort_key eq by (rule sort_key_stable)
  qed
qed

theorem query_order_witness:
  "filter (\<lambda>e. getTime (date e) = 1710028800000)
     (filteredAndSortedEntries everything (transferInMarch # ledger)) =
   [transferInMarch, salaryInMarch]"
proof -
  have times: "getTime (date transferInMarch) = 1710028800000"
    "getTime (date salaryInMarch) = 1710028800000"
    "getTime (date foodInMarch) = 1709596800000"
    "getTime (date foodInFebruary) = 1708387200000"
    by (simp_all add: ledger_defs transferInMarch_def)
  from query_order [of everything "transferInMarch # ledger"] show ?thesis
    by (simp add: passesFilter_everything times ledger_def)
qed

section \<open>The CSV download\<close>

lemma showNat_digits: "set (showNat n) \<subseteq> {48..57}"
proof (induction n rule: showNat.induct)
  case (1 n)
  show ?case
  proof (cases "n < 10")
    case True
    then show ?thesis by (simp add: showNat.simps [of n])
  next
    case False
    have "n mod 10 < 10" by simp
    then have "48 + n mod 10 \<in> {48..57}" by simp
    with False 1 show ?thesis by (simp add: showNat.simps [of n])
  qed
qed

lemma showInt_no_quote: "34 \<notin> set (showInt i)"
proof -
  have "34 \<notin> set (showNat n)" for n
    using showNat_digits [of n] by auto
  then show ?thesis by (simp add: showInt_def)
qed

lemma escapeQuotes_Nil [simp]: "escapeQuotes [] = []"
  by (simp add: escapeQuotes_def)

lemma escapeQuotes_Cons:
  "escapeQuotes (c # s) = (if c = 34 then 34 # 34 # escapeQuotes s else c # escapeQuotes s)"
  by (simp add: escapeQuotes_def)

lemma escapeQuotes_empty_iff: "escapeQuotes s = [] \<longleftrightarrow> s = []"
  by (cases s) (simp_all add: escapeQuotes_Cons)

lemma unescapeQuotes_plain: "c \<noteq> 34 \<Longrightarrow> unescapeQuotes (c # r) = c # unescapeQuotes r"
  by (cases r) simp_all

lemma quotesPaired_plain: "c \<noteq> 34 \<Longrightarrow> quotesPaired (c # r) = quotesPaired r"
  by (cases r) simp_all

lemma unescape_escape: "unescapeQuotes (escapeQuotes s) = s"
  by (induction s) (simp_all add: escapeQuotes_Cons unescapeQuotes_plain)

lemma quotesPaired_escape: "quotesPaired (escapeQuotes s)"
  by (induction s) (simp_all add: escapeQuotes_Cons quotesPaired_plain)

lemma orEmpty_escape: "orEmpty (map_option escapeQuotes m) = escapeQuotes (orEmpty m)"
  by (cases m) (simp_all add: orEmpty_def escapeQuotes_empty_iff)

lemma csvFields_rows:
  "csvFields e =
     [quoted (toLocaleDateString (date e)), quoted (typeLabel e), quoted (category e),
      showInt (amount e), quoted (orEmpty (paymentMethod e)),
      quoted (escapeQuotes (orEmpty (memo e))),
      quoted (orEmpty (map_option (take 8) (recordedBy e)))]"
  by (simp add: csvFields_def orEmpty_escape)

lemma csvFields_absent:
  "paymentMethod e = None \<Longrightarrow> csvFields e ! 4 = [34, 34]"
  "memo e = None \<Longrightarrow> csvFields e ! 5 = [34, 34]"
  by (simp_all add: csvFields_def orEmpty_def quoted_def)

lemma csvFieldsEarlier_present: "memo e = Some m \<Longrightarrow> csvFieldsEarlier e = Inr (csvFields e)"
  by (simp add: csvFieldsEarlier_def csvFields_rows orEmpty_def escapeQuotes_empty_iff)

lemma csvFieldsEarlier_absent: "memo e = None \<Longrightarrow> csvFieldsEarlier e = Inl TypeError"
  by (simp add: csvFieldsEarlier_def)

lemma js_memo_literals:
  "js ''He said '' = [72, 101, 32, 115, 97, 105, 100, 32]"
  "js ''hi'' = [104, 105]"
  "js ''Food '' = [70, 111, 111, 100, 32]"
  "js ''out'' = [111, 117, 116]"
  by (simp_all add: js_def)

text \<open>
  C2, as stated, fails: only the memo has its double quotes doubled. A category label
  with quotes in it is written between the outer quotes as it is.
\<close>

theorem csvFields_category_counterexample:
  "csvFields quotedCategory ! 2 = 34 # js ''Food '' @ 34 # js ''out'' @ [34, 34]
   \<and> csvFields quotedCategory ! 2 \<noteq> quoted (escapeQuotes (category quotedCategory))
   \<and> \<not> quotesPaired (category quotedCategory)"
  by (simp add: csvFields_def quotedCategory_def quoted_def escapeQuotes_def js_memo_literals)

text \<open>
  C2, amended: in every row the date, the type label, the category, the payment method,
  the memo and the recorder are each wrapped in double quotes and the amount is written
  bare, with no quote in it. Inside the memo every double quote is doubled, so that no
  quote stands alone and reading the doubled quotes back gives the memo; the other
  fields are written as they are. The memo \<^verbatim>\<open>He said "hi"\<close> becomes
  \<^verbatim>\<open>"He said ""hi"""\<close>. The rows, joined by line feeds after the header row and a
  byte-order mark, are the document.
\<close>

theorem csvFields_quoting:
  "csvFields e =
     [quoted (toLocaleDateString (date e)), quoted (typeLabel e), quoted (category e),
      showInt (amount e), quoted (orEmpty (paymentMethod e)),
      quoted (escapeQuotes (orEmpty (memo e))),
      quoted (orEmpty (map_option (take 8) (recordedBy e)))]
   \<and> 34 \<notin> set (showInt (amount e))
   \<and> quotesPaired (escapeQuotes (orEmpty (memo e)))
   \<and> unescapeQuotes (escapeQuotes (orEmpty (memo e))) = orEmpty (memo e)
   \<and> (memo e = Some (js ''He said '' @ 34 # js ''hi'' @ [34]) \<longrightarrow>
        csvFields e ! 5 = 34 # js ''He said '' @ [34, 34] @ js ''hi'' @ [34, 34, 34])
   \<and> (rows \<noteq> [] \<longrightarrow>
        download (handleDownloadCsv selectedMonth rows) =
          Some (fileName selectedMonth,
                0xFEFF # join [10] (join [44] (map quoted headers)
                                     # map (\<lambda>entry. join [44] (csvFields entry)) rows)))"
proof (intro conjI impI)
  show "csvFields e =
     [quoted (toLocaleDateString (date e)), quoted (typeLabel e), quoted (category e),
      showInt (amount e), quoted (orEmpty (paymentMethod e)),
      quoted (escapeQuotes (orEmpty (memo e))),
      quoted (orEmpty (map_option (take 8) (recordedBy e)))]"
    by (rule csvFields_rows)
  show "34 \<notin> set (showInt (amount e))"
    by (rule showInt_no_quote)
  show "quotesPaired (escapeQuotes (orEmpty (memo e)))"
    by (rule quotesPaired_escape)
  show "unescapeQuotes (escapeQuotes (orEmpty (memo e))) = orEmpty (memo e)"
    by (rule unescape_escape)
  show "csvFields e ! 5 = 34 # js ''He said '' @ [34, 34] @ js ''hi'' @ [34, 34, 34]"
    if "memo e = Some (js ''He said '' @ 34 # js ''hi'' @ [34])"
    using that
    by (simp add: csvFields_rows orEmpty_def quoted_def escapeQuotes_def js_memo_literals)
  show "download (handleDownloadCsv selectedMonth rows) =
          Some (fileName selectedMonth,
                0xFEFF # join [10] (join [44] (map quoted headers)
                                     # map (\<lambda>entry. join [44] (csvFields entry)) rows))"
    if "rows \<noteq> []"
    using that by (simp add: handleDownloadCsv_def csvString_def)
qed

theorem csvFields_quoting_witness:
  "csvFields foodInMarch ! 5 = 34 # js ''He said '' @ [34, 34] @ js ''hi'' @ [34, 34, 34]
   \<and> csvFields foodInMarch ! 3 = js ''15000''
   \<and> download (handleDownloadCsv (js ''2024-03'') [foodInMarch]) =
       Some (fileName (js ''2024-03''),
             0xFEFF # join [10] [join [44] (map quoted headers), join [44] (csvFields foodInMarch)])"
proof -
  note row = csvFields_quoting [of foodInMarch "[foodInMarch]" "js ''2024-03''"]
  have "memo foodInMarch = Some (js ''He said '' @ 34 # js ''hi'' @ [34])"
    by (simp add: foodInMarch_def)
  with row have "csvFields foodInMarch ! 5 =
      34 # js ''He said '' @ [34, 34] @ js ''hi'' @ [34, 34, 34]"
    by blast
  moreover have "showInt (amount foodInMarch) = js ''15000''"
    by (simp add: foodInMarch_def showInt_def showNat.simps js_def)
  with row have "csvFields foodInMarch ! 3 = js ''15000''"
    by simp
  moreover have "[foodInMarch] \<noteq> []"
    by simp
  with row have "download (handleDownloadCsv (js ''2024-03'') [foodInMarch]) =
       Some (fileName (js ''2024-03''),
             0xFEFF # join [10] [join [44] (map quoted headers), join [44] (csvFields foodInMarch)])"
    by simp
  ultimately show ?thesis by blast
qed

text \<open>
  C8 is about the earlier revision of the handler: for an entry without a memo it calls
  \<^verbatim>\<open>replace\<close> on \<^verbatim>\<open>undefined\<close> and the download ends in a \<^verbatim>\<open>TypeError\<close>, where the
  current revision writes an empty memo column.
\<close>

theorem earlier_revision_missing_memo:
  "memo foodInFebruary = None
   \<and> csvFieldsEarlier foodInFebruary = Inl TypeError
   \<and> handleDownloadCsvEarlier (js ''2024-02'') [foodInFebruary] = Inl TypeError
   \<and> csvFields foodInFebruary ! 5 = [34, 34]"
  by (simp add: csvFieldsEarlier_def handleDownloadCsvEarlier_def foodInFebruary_def
      csvFields_def orEmpty_def quoted_def)

text \<open>
  C9: with no entry to export the handler shows the message that there is nothing to
  download and hands no file to the browser, in both revisions; a file is produced
  exactly when there is at least one entry.
\<close>

theorem empty_export_refused:
  "handleDownloadCsv selectedMonth [] = \<lparr>download = None, message = nothingToDownload\<rparr>
   \<and> handleDownloadCsvEarlier selectedMonth [] =
       Inr \<lparr>download = None, message = nothingToDownload\<rparr>
   \<and> (download (handleDownloadCsv selectedMonth rows) = None) = (rows = [])"
  by (simp add: handleDownloadCsv_def handleDownloadCsvEarlier_def)

theorem empty_export_refused_witness:
  "download (handleDownloadCsv (js ''2024-03'') (filteredAndSortedEntries rentOnly ledger)) = None"
proof -
  have "filteredAndSortedEntries rentOnly ledger = []"
    by (simp add: filteredAndSortedEntries_def ledger_def passesFilter_rentOnly arraySort_def)
  with empty_export_refused [of "js ''2024-03''" "filteredAndSortedEntries rentOnly ledger"]
  show ?thesis by simp
qed

section \<open>The six-month window\<close>

text \<open>
  The six keys of the window are distinct, so the trend always has six buckets. The final
  sort orders them by the month number of the label alone: within one calendar year that
  is the chronological order.
\<close>

lemma upt_6: "[0..<6] = [0, 1, 2, 3, 4, 5]"
  by (simp add: upt_rec)

lemma month_cases:
  assumes "0 \<le> m" "m < 12"
  shows "m = 0 \<or> m = 1 \<or> m = 2 \<or> m = 3 \<or> m = 4 \<or> m = 5 \<or> m = 6 \<or> m = 7 \<or> m = 8
    \<or> m = 9 \<or> m = 10 \<or> m = (11 :: int)"
  using assms by arith

lemma padded_month:
  assumes "0 \<le> m" "m < 12"
  shows "length (padStart2 (showInt (m + 1))) = 2"
    and "digitsValue (padStart2 (showInt (m + 1))) = nat (m + 1)"
  using month_cases [OF assms]
  by (elim disjE; simp add: padStart2_def showInt_def showNat.simps digitsValue_def)+

lemma monthKey_month:
  assumes "0 \<le> m" "m < 12" "0 \<le> m'" "m' < 12" "monthKey y m = monthKey y' m'"
  shows "m = m'"
proof -
  let ?p = "padStart2 (showInt (m + 1))" and ?p' = "padStart2 (showInt (m' + 1))"
  have len: "length ?p = length ?p'"
    by (simp add: padded_month assms)
  from assms(5) have "(showInt y @ js ''-'') @ ?p = (showInt y' @ js ''-'') @ ?p'"
    by (simp add: monthKey_def)
  then have "showInt y @ js ''-'' = showInt y' @ js ''-'' \<and> ?p = ?p'"
    using len by (subst (asm) append_eq_append_conv) simp_all
  then have "digitsValue ?p = digitsValue ?p'"
    by simp
  then have "nat (m + 1) = nat (m' + 1)"
    by (simp only: padded_month assms)
  with assms(1,3) show ?thesis by simp
qed

lemma snd_firstOfMonth: "snd (firstOfMonth y k) = k mod 12"
  by (simp add: firstOfMonth_def Let_def)

lemma months_apart:
  fixes a p q :: int
  assumes "0 \<le> p" "p < 6" "0 \<le> q" "q < 6" "(a - p) mod 12 = (a - q) mod 12"
  shows "p = q"
proof -
  from assms(5) have "12 dvd (a - p) - (a - q)"
    by (simp only: mod_eq_dvd_iff)
  then have "12 dvd q - p"
    by simp
  then obtain k where "q - p = 12 * k" ..
  with assms(1-4) show ?thesis by arith
qed

lemma windowKey_distinct:
  assumes "i < 6" "j < 6" "i \<noteq> j"
  shows "windowKey today i \<noteq> windowKey today j"
proof
  let ?a = "getMonth today"
  assume "windowKey today i = windowKey today j"
  then have "monthKey (fst (firstOfMonth (getFullYear today) (?a - int i))) ((?a - int i) mod 12) =
      monthKey (fst (firstOfMonth (getFullYear today) (?a - int j))) ((?a - int j) mod 12)"
    by (simp only: windowKey_def snd_firstOfMonth)
  then have "(?a - int i) mod 12 = (?a - int j) mod 12"
    by (rule monthKey_month [rotated 4]) simp_all
  then have "int i = int j"
    using assms(1,2) by (intro months_apart [of "int i" "int j" ?a]) simp_all
  with assms(3) show False by simp
qed

lemma setProp_new: "k \<notin> set (map fst obj) \<Longrightarrow> setProp k v obj = obj @ [(k, v)]"
  by (induction obj) auto

lemma initialMonthlyData_window:
  "initialMonthlyData today = map (\<lambda>i. (windowKey today i, windowBucket today i)) [0..<6]"
proof -
  have step: "setProp (windowKey today n) (windowBucket today n)
        (map (\<lambda>i. (windowKey today i, windowBucket today i)) [0..<n]) =
      map (\<lambda>i. (windowKey today i, windowBucket today i)) [0..<Suc n]" if "n < 6" for n
  proof -
    have "\<forall>x<n. windowKey today n \<noteq> windowKey today x"
      using \<open>n < 6\<close> windowKey_distinct [of n _ today] by simp
    then have "windowKey today n \<notin> windowKey today ` {0..<n}"
      by (auto simp: image_iff)
    then have "windowKey today n \<notin> set (map fst (map (\<lambda>i. (windowKey today i, windowBucket today i)) [0..<n]))"
      by (simp add: comp_def)
    then show ?thesis by (simp add: setProp_new)
  qed
  have "fold (\<lambda>i. setProp (windowKey today i) (windowBucket today i)) [0..<n] [] =
      map (\<lambda>i. (windowKey today i, windowBucket today i)) [0..<n]" if "n \<le> 6" for n
    using that
  proof (induction n)
    case 0
    show ?case by simp
  next
    case (Suc n)
    then have "n < 6" by simp
    from Suc have "fold (\<lambda>i. setProp (windowKey today i) (windowBucket today i)) [0..<n] [] =
      map (\<lambda>i. (windowKey today i, windowBucket today i)) [0..<n]"
      by simp
    then show ?case
      by (simp only: upt_Suc_append [OF le0] fold_append comp_apply fold_simps step [OF \<open>n < 6\<close>])
  qed
  from this [of 6] show ?thesis
    by (simp add: initialMonthlyData_fold windowKey_def windowBucket_def)
qed

lemma trendData_length: "length (trendData today entries) = 6"
proof -
  have "size (mset (trendData today entries)) = 6"
    unfolding trendData_mset by (simp add: initialMonthlyData_window)
  then show ?thesis by simp
qed


lemma label_parse:
  assumes "0 \<le> m" "m < 12"
  shows "map toNumber (split 45 (butlast (monthLabel m))) = [Num (m + 1)]"
  using month_cases [OF assms]
  by (elim disjE; simp add: monthLabel_def showInt_def showNat.simps toNumber_def isDigit_def
      digitsValue_def)+

lemma labelNumber_month:
  assumes "0 \<le> a" "a < 12" "month x = monthLabel a"
  shows "labelNumber x = a + 1"
  by (simp add: labelNumber_def assms label_parse)

lemma sortCompare_byLabel:
  assumes "0 \<le> a" "a < 12" "0 \<le> b" "b < 12" "month x = monthLabel a" "month y = monthLabel b"
  shows "sortCompare byLabel x y = a - b"
  by (simp add: sortCompare_def byLabel_def Let_def assms label_parse elementAt_def)

lemma arrayIndex_monthKey: "arrayIndex (monthKey y m) = None"
proof -
  have "45 \<in> set (monthKey y m)"
    by (simp add: monthKey_def js_def)
  moreover have "\<not> isDigit 45"
    by (simp add: isDigit_def)
  ultimately have "\<not> list_all isDigit (monthKey y m)"
    unfolding list_all_iff by blast
  then show ?thesis
    by (simp add: arrayIndex_def)
qed

lemma objectValues_plain:
  "\<forall>k\<in>set (map fst obj). arrayIndex k = None \<Longrightarrow> objectValues obj = map snd obj"
  by (simp add: objectValues_def objectEntries_plain)

lemma month_settle: "month (settle es k b) = month b"
  by (simp add: settle_def)

lemma month_windowBucket:
  "month (windowBucket today i) = monthLabel ((getMonth today - int i) mod 12)"
  by (simp add: windowBucket_def snd_firstOfMonth)

lemma trendData_window:
  "trendData today entries =
     sort_key labelNumber
       (map (\<lambda>i. settle entries (windowKey today i) (windowBucket today i)) [0..<6])"
proof -
  let ?B = "\<lambda>i. settle entries (windowKey today i) (windowBucket today i)"
  let ?obj = "map (\<lambda>i. (windowKey today i, ?B i)) [0..<6]"
  have "fold addToMonth entries (initialMonthlyData today) =
      map (\<lambda>kb. (fst kb, settle entries (fst kb) (snd kb))) (initialMonthlyData today)"
    by (rule fold_addToMonth_map [OF initialMonthlyData_distinct])
  then have obj: "fold addToMonth entries (initialMonthlyData today) = ?obj"
    by (simp add: initialMonthlyData_window comp_def)
  have "\<forall>k\<in>set (map fst ?obj). arrayIndex k = None"
    by (simp add: comp_def windowKey_def arrayIndex_monthKey)
  then have vals: "objectValues ?obj = map ?B [0..<6]"
    by (simp add: objectValues_plain comp_def)
  have "arraySort byLabel (map ?B [0..<6]) = sort_key labelNumber (map ?B [0..<6])"
  proof (rule arraySort_sort_key_on)
    fix x y
    assume "x \<in> set (map ?B [0..<6])" and "y \<in> set (map ?B [0..<6])"
    then obtain i j where x: "x = ?B i" and y: "y = ?B j"
      by auto
    let ?a = "(getMonth today - int i) mod 12" and ?b = "(getMonth today - int j) mod 12"
    have range: "0 \<le> ?a" "?a < 12" "0 \<le> ?b" "?b < 12"
      by simp_all
    have mx: "month x = monthLabel ?a" and my: "month y = monthLabel ?b"
      by (simp_all add: x y month_settle month_windowBucket)
    show "(sortCompare byLabel x y \<le> 0) = (labelNumber x \<le> labelNumber y)"
      using sortCompare_byLabel [OF range mx my] labelNumber_month [OF range(1,2) mx]
        labelNumber_month [OF range(3,4) my]
      by simp
  qed
  with obj vals show ?thesis
    by (simp add: trendData_def)
qed

lemma trendData_by_month_number: "sorted (map labelNumber (trendData today entries))"
  unfolding trendData_window by (rule sorted_sort_key)

lemma trendData_within_year:
  assumes "5 \<le> getMonth today" "getMonth today < 12"
  shows "trendData today entries =
     map (\<lambda>i. settle entries (windowKey today i) (windowBucket today i)) [5, 4, 3, 2, 1, 0]"
proof -
  let ?B = "\<lambda>i. settle entries (windowKey today i) (windowBucket today i)"
  have number: "labelNumber (?B i) = getMonth today - int i + 1" if "i < 6" for i
  proof -
    from that assms have m: "(getMonth today - int i) mod 12 = getMonth today - int i"
      by simp
    have "month (?B i) = monthLabel (getMonth today - int i)"
      by (simp add: month_settle month_windowBucket m)
    moreover have "0 \<le> getMonth today - int i" "getMonth today - int i < 12"
      using that assms by simp_all
    ultimately show ?thesis
      using labelNumber_month [of "getMonth today - int i" "?B i"] by simp
  qed
  have "sort_key labelNumber (map ?B [0..<6]) = map ?B [5, 4, 3, 2, 1, 0]"
  proof (rule sort_key_inj_key_eq)
    show "mset (map ?B [0..<6]) = mset (map ?B [5, 4, 3, 2, 1, 0])"
      by (simp add: upt_6)
    show "inj_on labelNumber (set (map ?B [0..<6]))"
    proof (rule inj_onI)
      fix x y
      assume "x \<in> set (map ?B [0..<6])" "y \<in> set (map ?B [0..<6])"
        and eq: "labelNumber x = labelNumber y"
      then obtain i j where "x = ?B i" "i < 6" "y = ?B j" "j < 6"
        by auto
      with eq number [of i] number [of j] show "x = y"
        by simp
    qed
    show "sorted (map labelNumber (map ?B [5, 4, 3, 2, 1, 0]))"
      by (simp add: number)
  qed
  then show ?thesis
    by (simp only: trendData_window)
qed

lemma trendData_empty:
  "trendData today [] = sort_key labelNumber (map (windowBucket today) [0..<6])"
  by (simp add: trendData_window settle_Nil)

section \<open>Which entries count as income\<close>

lemma filteredEntries_with_transfer:
  "filteredEntries utcDate day5March (transferInMarch # ledger) =
     [transferInMarch, salaryInMarch, foodInMarch]"
  by (simp add: filteredEntries_def Let_def utcDate_2024 ledger_defs transferInMarch_def
      arraySort_def sortCompare_def byDateDescending_def)

lemma isIncome_examples:
  "isIncome salaryInMarch" "\<not> isIncome foodInMarch" "\<not> isIncome foodInFebruary"
  "\<not> isIncome transferInMarch"
  by (simp_all add: isIncome_def ledger_defs transferInMarch_def js_literals js_labels)

lemma category_examples:
  "category salaryInMarch = js ''Salary''" "category foodInMarch = js ''Food''"
  "category foodInFebruary = js ''Food''" "category transferInMarch = js ''Other''"
  "amount salaryInMarch = 500000" "amount foodInMarch = 15000"
  "amount foodInFebruary = 8000" "amount transferInMarch = 300"
  by (simp_all add: ledger_defs transferInMarch_def)

lemma entryMonthKey_examples:
  "entryMonthKey salaryInMarch = js ''2024-03''" "entryMonthKey foodInMarch = js ''2024-03''"
  "entryMonthKey foodInFebruary = js ''2024-02''" "entryMonthKey transferInMarch = js ''2024-03''"
  "windowKey day5March 0 = js ''2024-03''"
  "windowBucket day5March 0 = \<lparr>income = 0, expense = 0, month = monthLabel 2\<rparr>"
  by (simp_all add: entryMonthKey_def windowKey_def windowBucket_def firstOfMonth_def ledger_defs
      transferInMarch_def monthKey_def showInt_def showNat.simps padStart2_def js_def)

lemma trendData_buckets:
  "mset (trendData today entries) =
     mset (map (\<lambda>i. (windowBucket today i)
                 \<lparr>income := amountOf (\<lambda>e. isIncome e \<and> entryMonthKey e = windowKey today i) entries,
                  expense := amountOf (\<lambda>e. \<not> isIncome e \<and> entryMonthKey e = windowKey today i) entries\<rparr>)
            [0..<6])"
proof -
  have "settle entries (windowKey today i) (windowBucket today i) =
      (windowBucket today i)
        \<lparr>income := amountOf (\<lambda>e. isIncome e \<and> entryMonthKey e = windowKey today i) entries,
         expense := amountOf (\<lambda>e. \<not> isIncome e \<and> entryMonthKey e = windowKey today i) entries\<rparr>" for i
    by (simp add: settle_def windowBucket_def amountOf_def)
  then show ?thesis
    by (simp add: trendData_window)
qed

text \<open>
  C10, as the code has it: an expense is not always added to the breakdown total of its
  category. An expense of 100 whose category is \<^verbatim>\<open>__proto__\<close> is counted in the total
  expense, and the breakdown has no total under that name.
\<close>

theorem only_income_is_income_counterexample:
  "\<not> isIncome labelledProto
   \<and> totalExpense (summarize utcDate day5March [labelledProto]) = 100
   \<and> map_of (categoryExpenses (summarize utcDate day5March [labelledProto])) (js ''__proto__'') = None"
  by (simp add: proto_alone) (simp add: isIncome_def labelledProto_def js_literals)

text \<open>
  C10, amended: an entry counts as income exactly when its type is the string
  \<^verbatim>\<open>income\<close>. The total income of a month is what the amounts of its income entries add
  up to, and the total expense what the amounts of all its other entries add up to,
  whatever their type. For every category that is not the name of a member inherited from
  \<^verbatim>\<open>Object.prototype\<close>, the breakdown holds the amounts of the entries of that category
  that are not income, added up, and holds no total for a category without such an entry.
  The trend consists of the buckets of the six months that end with the current one, each
  with the income entries of its month added up as income and all other entries of its
  month as expense. Amounts are added in the order of the entries, as the language adds
  numbers.
\<close>

theorem only_income_is_income:
  "totalIncome (summarize newDate currentMonth entries) =
     amountOf isIncome (filteredEntries newDate currentMonth entries)
   \<and> totalExpense (summarize newDate currentMonth entries) =
     amountOf (\<lambda>e. \<not> isIncome e) (filteredEntries newDate currentMonth entries)
   \<and> (\<forall>c. c \<notin> set inheritedNames \<longrightarrow>
         map_of (categoryExpenses (summarize newDate currentMonth entries)) c =
         (if \<exists>e\<in>set (filteredEntries newDate currentMonth entries). \<not> isIncome e \<and> category e = c
          then Some (Number (amountOf (\<lambda>e. \<not> isIncome e \<and> category e = c)
                      (filteredEntries newDate currentMonth entries)))
          else None))
   \<and> mset (trendData today entries) =
       mset (map (\<lambda>i. (windowBucket today i)
                   \<lparr>income := amountOf (\<lambda>e. isIncome e \<and> entryMonthKey e = windowKey today i) entries,
                    expense := amountOf (\<lambda>e. \<not> isIncome e \<and> entryMonthKey e = windowKey today i) entries\<rparr>)
              [0..<6])"
  unfolding summarize_def
  by (intro conjI allI impI summary_totals summary_category_at trendData_buckets)

theorem only_income_is_income_witness:
  "totalIncome (summarize utcDate day5March (transferInMarch # ledger)) = 500000
   \<and> totalExpense (summarize utcDate day5March (transferInMarch # ledger)) = 15300
   \<and> map_of (categoryExpenses (summarize utcDate day5March (transferInMarch # ledger)))
        (js ''Other'') = Some (Number 300)
   \<and> \<lparr>income = 500000, expense = 15300, month = monthLabel 2\<rparr>
        \<in> set (trendData day5March (transferInMarch # ledger))"
proof -
  note t = only_income_is_income [of utcDate day5March "transferInMarch # ledger" day5March]
  note income = t [THEN conjunct1]
  note expense = t [THEN conjunct2, THEN conjunct1]
  note breakdown = t [THEN conjunct2, THEN conjunct2, THEN conjunct1]
  note trend = t [THEN conjunct2, THEN conjunct2, THEN conjunct2]
  have plain: "js ''Other'' \<notin> set inheritedNames"
    by (simp add: js_labels inheritedNames_literals)
  have ne: "js ''2024-02'' \<noteq> js ''2024-03''"
    by (simp add: js_def)
  have "totalIncome (summarize utcDate day5March (transferInMarch # ledger)) = 500000"
    using income by (simp add: filteredEntries_with_transfer isIncome_examples category_examples
        amountOf_def numAdd_exact)
  moreover have "totalExpense (summarize utcDate day5March (transferInMarch # ledger)) = 15300"
    using expense by (simp add: filteredEntries_with_transfer isIncome_examples category_examples
        amountOf_def numAdd_exact)
  moreover have "map_of (categoryExpenses (summarize utcDate day5March (transferInMarch # ledger)))
        (js ''Other'') = Some (Number 300)"
  proof -
    from breakdown [THEN spec, of "js ''Other''", THEN mp, OF plain] have "map_of (categoryExpenses (summarize utcDate day5March (transferInMarch # ledger)))
        (js ''Other'') =
         (if \<exists>e\<in>set (filteredEntries utcDate day5March (transferInMarch # ledger)).
               \<not> isIncome e \<and> category e = js ''Other''
          then Some (Number (amountOf (\<lambda>e. \<not> isIncome e \<and> category e = js ''Other'')
                      (filteredEntries utcDate day5March (transferInMarch # ledger))))
          else None)" .
    then show ?thesis
      by (simp add: filteredEntries_with_transfer isIncome_examples category_examples
          js_literals js_labels amountOf_def numAdd_exact)
  qed
  moreover have "\<lparr>income = 500000, expense = 15300, month = monthLabel 2\<rparr>
        \<in> set (trendData day5March (transferInMarch # ledger))"
  proof -
    let ?f = "\<lambda>i. (windowBucket day5March i)
                   \<lparr>income := amountOf (\<lambda>e. isIncome e \<and> entryMonthKey e = windowKey day5March i)
                                (transferInMarch # ledger),
                    expense := amountOf (\<lambda>e. \<not> isIncome e \<and> entryMonthKey e = windowKey day5March i)
                                (transferInMarch # ledger)\<rparr>"
    have "mset (trendData day5March (transferInMarch # ledger)) = mset (map ?f [0..<6])"
      by (rule trend)
    then have "set_mset (mset (trendData day5March (transferInMarch # ledger))) =
        set_mset (mset (map ?f [0..<6]))"
      by (rule arg_cong)
    then have "set (trendData day5March (transferInMarch # ledger)) = set (map ?f [0..<6])"
      by (simp only: set_mset_mset)
    moreover have "?f 0 \<in> set (map ?f [0..<6])"
      unfolding set_map by (rule imageI) simp
    moreover have "?f 0 = \<lparr>income = 500000, expense = 15300, month = monthLabel 2\<rparr>"
      by (simp add: entryMonthKey_examples ledger_def isIncome_examples category_examples ne
          amountOf_def numAdd_exact)
    ultimately show ?thesis
      by simp
  qed
  ultimately show ?thesis
    by blast
qed

section \<open>The order of the trend buckets\<close>

lemma monthLabel_values:
  "monthLabel 0 = [49, 0xC6D4]" "monthLabel 1 = [50, 0xC6D4]" "monthLabel 8 = [57, 0xC6D4]"
  "monthLabel 9 = [49, 48, 0xC6D4]" "monthLabel 10 = [49, 49, 0xC6D4]"
  "monthLabel 11 = [49, 50, 0xC6D4]"
  by (simp_all add: monthLabel_def showInt_def showNat.simps)

lemma monthKey_values:
  "monthKey 2024 1 = js ''2024-02''" "monthKey 2024 0 = js ''2024-01''"
  "monthKey 2023 11 = js ''2023-12''" "monthKey 2023 10 = js ''2023-11''"
  "monthKey 2023 9 = js ''2023-10''" "monthKey 2023 8 = js ''2023-09''"
  by (simp_all add: monthKey_def showInt_def showNat.simps padStart2_def js_def)

lemma initialMonthlyData_midFebruary:
  "initialMonthlyData midFebruary =
     [(js ''2024-02'', \<lparr>income = 0, expense = 0, month = monthLabel 1\<rparr>),
      (js ''2024-01'', \<lparr>income = 0, expense = 0, month = monthLabel 0\<rparr>),
      (js ''2023-12'', \<lparr>income = 0, expense = 0, month = monthLabel 11\<rparr>),
      (js ''2023-11'', \<lparr>income = 0, expense = 0, month = monthLabel 10\<rparr>),
      (js ''2023-10'', \<lparr>income = 0, expense = 0, month = monthLabel 9\<rparr>),
      (js ''2023-09'', \<lparr>income = 0, expense = 0, month = monthLabel 8\<rparr>)]"
proof -
  have months: "firstOfMonth 2024 1 = (2024, 1)" "firstOfMonth 2024 0 = (2024, 0)"
    "firstOfMonth 2024 (- 1) = (2023, 11)" "firstOfMonth 2024 (- 2) = (2023, 10)"
    "firstOfMonth 2024 (- 3) = (2023, 9)" "firstOfMonth 2024 (- 4) = (2023, 8)"
    by (simp_all add: firstOfMonth_def)
  have ne: "js ''2024-02'' \<noteq> js ''2024-01''" "js ''2024-02'' \<noteq> js ''2023-12''"
    "js ''2024-02'' \<noteq> js ''2023-11''" "js ''2024-02'' \<noteq> js ''2023-10''"
    "js ''2024-02'' \<noteq> js ''2023-09''" "js ''2024-01'' \<noteq> js ''2023-12''"
    "js ''2024-01'' \<noteq> js ''2023-11''" "js ''2024-01'' \<noteq> js ''2023-10''"
    "js ''2024-01'' \<noteq> js ''2023-09''" "js ''2023-12'' \<noteq> js ''2023-11''"
    "js ''2023-12'' \<noteq> js ''2023-10''" "js ''2023-12'' \<noteq> js ''2023-09''"
    "js ''2023-11'' \<noteq> js ''2023-10''" "js ''2023-11'' \<noteq> js ''2023-09''"
    "js ''2023-10'' \<noteq> js ''2023-09''"
    by (simp_all add: js_def)
  show ?thesis
    unfolding initialMonthlyData_def upt_6 midFebruary_def
    by (simp add: months monthKey_values ne)
qed

lemma arrayIndex_monthKeys:
  "arrayIndex (js ''2024-02'') = None" "arrayIndex (js ''2024-01'') = None"
  "arrayIndex (js ''2023-12'') = None" "arrayIndex (js ''2023-11'') = None"
  "arrayIndex (js ''2023-10'') = None" "arrayIndex (js ''2023-09'') = None"
  by (simp_all add: arrayIndex_def isDigit_def js_def)

lemma label_parse_midFebruary:
  "map toNumber (split 45 (butlast (monthLabel 0))) = [Num 1]"
  "map toNumber (split 45 (butlast (monthLabel 1))) = [Num 2]"
  "map toNumber (split 45 (butlast (monthLabel 8))) = [Num 9]"
  "map toNumber (split 45 (butlast (monthLabel 9))) = [Num 10]"
  "map toNumber (split 45 (butlast (monthLabel 10))) = [Num 11]"
  "map toNumber (split 45 (butlast (monthLabel 11))) = [Num 12]"
  by (simp_all add: monthLabel_values toNumber_def isDigit_def digitsValue_def)

lemma trendData_midFebruary:
  "trendData midFebruary [] =
     [\<lparr>income = 0, expense = 0, month = monthLabel 0\<rparr>,
      \<lparr>income = 0, expense = 0, month = monthLabel 1\<rparr>,
      \<lparr>income = 0, expense = 0, month = monthLabel 8\<rparr>,
      \<lparr>income = 0, expense = 0, month = monthLabel 9\<rparr>,
      \<lparr>income = 0, expense = 0, month = monthLabel 10\<rparr>,
      \<lparr>income = 0, expense = 0, month = monthLabel 11\<rparr>]"
  unfolding trendData_def fold_simps initialMonthlyData_midFebruary
  by (simp add: objectValues_def objectEntries_def arrayIndex_monthKeys arraySort_def
      sortCompare_def byLabel_def Let_def label_parse_midFebruary elementAt_def)

lemma windowMonths_midFebruary:
  "windowMonths 6 2024 1 = [(2023, 8), (2023, 9), (2023, 10), (2023, 11), (2024, 0), (2024, 1)]"
  unfolding windowMonths_def upt_6 by simp


text \<open>
  C1 fails on the code when the six months straddle a new year. In mid-February 2024,
  with no entries, the buckets are created for 2024-02 back to 2023-09; the final sort
  reads only the month number off each label, so January and February 2024 come out in
  front of September to December 2023, where the chronological window starts with
  September 2023.
\<close>

theorem trendData_across_new_year:
  "map fst (initialMonthlyData midFebruary) =
     [js ''2024-02'', js ''2024-01'', js ''2023-12'', js ''2023-11'', js ''2023-10'', js ''2023-09'']
   \<and> map month (trendData midFebruary []) =
     [monthLabel 0, monthLabel 1, monthLabel 8, monthLabel 9, monthLabel 10, monthLabel 11]
   \<and> map (\<lambda>ym. monthLabel (snd ym)) (windowMonths 6 2024 1) =
     [monthLabel 8, monthLabel 9, monthLabel 10, monthLabel 11, monthLabel 0, monthLabel 1]
   \<and> trendData midFebruary [] \<noteq>
     map (\<lambda>ym. \<lparr>income = 0, expense = 0, month = monthLabel (snd ym)\<rparr>) (windowMonths 6 2024 1)"
  unfolding trendData_midFebruary windowMonths_midFebruary initialMonthlyData_midFebruary
  by (simp add: monthLabel_values)
end
